theory Spec2Isabelle
  imports Complex_Main "HOL-Library.Word"
begin

section \<open>Data model of the roadmap (globalmap.cpp)\<close>

text \<open>
  A vertex is the integer key of the roadmap graph. The typedef itself lives in a header
  that is not part of the sources; the specification calls it a monotonically increasing
  integer, so it is modelled as an unbounded natural number.
  \<open>TGlobalOrd\<close> is the pair of double coordinates \<open>{x, y}\<close>; coordinates are modelled as
  real numbers (so \<open>==\<close> is equality, and no NaN exists). A \<open>cv::Point\<close> is a pixel
  \<open>(x, y)\<close> = (column, row), a \<open>cv::Mat\<close> a greyscale raster read by row and column.
\<close>

type_synonym vertex = nat

record TGlobalOrd =
  ord_x :: real
  ord_y :: real

type_synonym Point = "int \<times> int"

record Mat =
  mat_rows :: nat
  mat_cols :: nat
  mat_at :: "int \<Rightarrow> int \<Rightarrow> nat"

definition mat_empty :: "Mat \<Rightarrow> bool" where
  "mat_empty m = (mat_rows m = 0 \<or> mat_cols m = 0)"

text \<open>
  \<open>vertexLUT_\<close> is a \<open>std::map<vertex, TGlobalOrd>\<close>: an association list kept in
  ascending key order, which is the order the range-for loops of the source visit it in.
  \<open>lut_insert\<close> is \<open>std::map::insert\<close> (an existing key keeps its value) and
  \<open>lut_index\<close> is \<open>operator[]\<close> (a missing key is inserted with the value-initialised
  ordinate \<open>{0, 0}\<close>).
\<close>

type_synonym lut = "(vertex \<times> TGlobalOrd) list"

fun lut_insert :: "vertex \<Rightarrow> TGlobalOrd \<Rightarrow> lut \<Rightarrow> lut" where
  "lut_insert v p [] = [(v, p)]"
| "lut_insert v p ((k, q) # rest) =
     (if v = k then (k, q) # rest
      else if v < k then (v, p) # (k, q) # rest
      else (k, q) # lut_insert v p rest)"

definition lut_index :: "lut \<Rightarrow> vertex \<Rightarrow> TGlobalOrd \<times> lut" where
  "lut_index t v =
     (case map_of t v of
        Some p \<Rightarrow> (p, t)
      | None \<Rightarrow> (\<lparr>ord_x = 0, ord_y = 0\<rparr>, lut_insert v \<lparr>ord_x = 0, ord_y = 0\<rparr> t))"

text \<open>
  The members of \<open>GlobalMap\<close>. The source names them with a trailing underscore
  (\<open>graph_\<close>, \<open>vertexLUT_\<close>, ...), which is not a legal constant name here; the suffix
  \<open>_m\<close> stands for it. The classes \<open>Graph\<close> and \<open>LocalMap\<close> are not part of the sources:
  their states are the type parameters \<open>'g\<close> and \<open>'l\<close>.
\<close>

record ('g, 'l) GlobalMap =
  graph_m :: 'g
  lmap_m :: 'l
  vertexLUT_m :: lut
  nextVertexId_m :: vertex
  reference_m :: TGlobalOrd
  mapSize_m :: real
  robotDiameter_m :: real

text \<open>
  The member functions of \<open>Graph\<close> and \<open>LocalMap\<close> that globalmap.cpp calls, taken as
  parameters, together with OpenCV's \<open>cvtColor\<close>; \<open>'i\<close> is the type of colour images.
  \<open>addEdge\<close> returns a flag in the specification; the callers drop it, so only the new
  graph is kept. Every theorem below that does not fix this record holds for any
  implementation of the two classes.
\<close>

record ('g, 'l, 'i) collab =
  newGraph :: "nat \<Rightarrow> real \<Rightarrow> 'g"
  addVertex :: "'g \<Rightarrow> vertex \<Rightarrow> 'g"
  addEdge :: "'g \<Rightarrow> vertex \<Rightarrow> vertex \<Rightarrow> real \<Rightarrow> 'g"
  shortestPath :: "'g \<Rightarrow> vertex \<Rightarrow> vertex \<Rightarrow> vertex list"
  container :: "'g \<Rightarrow> (vertex \<times> (vertex \<times> real) list) list"
  newLocalMap :: "real \<Rightarrow> real \<Rightarrow> 'l"
  convertToPoint :: "'l \<Rightarrow> TGlobalOrd \<Rightarrow> TGlobalOrd \<Rightarrow> Point"
  isAccessible :: "'l \<Rightarrow> Mat \<Rightarrow> Point \<Rightarrow> bool"
  canConnect :: "'l \<Rightarrow> Mat \<Rightarrow> Point \<Rightarrow> Point \<Rightarrow> bool"
  expandConfigSpace :: "'l \<Rightarrow> Mat \<Rightarrow> real \<Rightarrow> Mat"
  overlayPRM :: "'l \<Rightarrow> 'i \<Rightarrow> (Point \<times> Point) list \<Rightarrow> 'i"
  overlayPath :: "'l \<Rightarrow> 'i \<Rightarrow> Point list \<Rightarrow> 'i"
  cvtColor :: "Mat \<Rightarrow> 'i"

definition MaxGraphDensity :: nat where
  "MaxGraphDensity = 5"

definition MaxDistance :: real where
  "MaxDistance = 5 / 2"

text \<open>The constructor \<open>GlobalMap::GlobalMap(mapSize, mapRes, robotDiameter)\<close>.\<close>

definition GlobalMap_new ::
  "('g, 'l, 'i) collab \<Rightarrow> real \<Rightarrow> real \<Rightarrow> real \<Rightarrow> ('g, 'l) GlobalMap" where
  "GlobalMap_new env mapSize mapRes robotDiameter =
     \<lparr>graph_m = newGraph env MaxGraphDensity MaxDistance,
      lmap_m = newLocalMap env mapSize mapRes,
      vertexLUT_m = [],
      nextVertexId_m = 0,
      reference_m = \<lparr>ord_x = 0, ord_y = 0\<rparr>,
      mapSize_m = mapSize,
      robotDiameter_m = robotDiameter\<rparr>"

subsection \<open>Vertex admission\<close>

text \<open>\<open>existsAsVertex\<close> and \<open>lookup\<close>: the two linear scans of \<open>vertexLUT_\<close>.\<close>

fun lut_exists :: "lut \<Rightarrow> TGlobalOrd \<Rightarrow> bool" where
  "lut_exists [] p = False"
| "lut_exists ((k, q) # rest) p =
     (if ord_x q = ord_x p \<and> ord_y q = ord_y p then True else lut_exists rest p)"

definition existsAsVertex :: "('g, 'l) GlobalMap \<Rightarrow> TGlobalOrd \<Rightarrow> bool" where
  "existsAsVertex gm p = lut_exists (vertexLUT_m gm) p"

text \<open>
  \<open>lookup(ord, v)\<close> returns true and stores the key in \<open>v\<close>, or returns false and leaves
  \<open>v\<close> alone: \<open>Some\<close> key or \<open>None\<close>.
\<close>

fun lut_lookup :: "lut \<Rightarrow> TGlobalOrd \<Rightarrow> vertex option" where
  "lut_lookup [] p = None"
| "lut_lookup ((k, q) # rest) p =
     (if ord_x q = ord_x p \<and> ord_y q = ord_y p then Some k else lut_lookup rest p)"

definition lookup :: "('g, 'l) GlobalMap \<Rightarrow> TGlobalOrd \<Rightarrow> vertex option" where
  "lookup gm p = lut_lookup (vertexLUT_m gm) p"

definition nextVertexId :: "('g, 'l) GlobalMap \<Rightarrow> vertex \<times> ('g, 'l) GlobalMap" where
  "nextVertexId gm = (nextVertexId_m gm, gm\<lparr>nextVertexId_m := nextVertexId_m gm + 1\<rparr>)"

text \<open>
  \<open>findOrAdd\<close>. In the first branch the source calls \<open>lookup\<close> on an ordinate that
  \<open>existsAsVertex\<close> has just found, so the \<open>None\<close> case (which would leave the local
  \<open>v\<close> unset) cannot occur: lemma \<open>lut_lookup_exists\<close>.
\<close>

definition findOrAdd ::
  "('g, 'l, 'i) collab \<Rightarrow> ('g, 'l) GlobalMap \<Rightarrow> TGlobalOrd \<Rightarrow> vertex \<times> ('g, 'l) GlobalMap" where
  "findOrAdd env gm ordinate =
     (if existsAsVertex gm ordinate then
        (case lookup gm ordinate of Some v \<Rightarrow> (v, gm) | None \<Rightarrow> (0, gm))
      else
        (let (v, gm1) = nextVertexId gm
         in (v, gm1\<lparr>graph_m := addVertex env (graph_m gm1) v,
                    vertexLUT_m := lut_insert v ordinate (vertexLUT_m gm1)\<rparr>)))"

definition setReference :: "TGlobalOrd \<Rightarrow> ('g, 'l) GlobalMap \<Rightarrow> ('g, 'l) GlobalMap" where
  "setReference reference gm =
     gm\<lparr>reference_m := (reference_m gm)\<lparr>ord_x := ord_x reference, ord_y := ord_y reference\<rparr>\<rparr>"

text \<open>The free function \<open>distance\<close>.\<close>

definition distance :: "TGlobalOrd \<Rightarrow> TGlobalOrd \<Rightarrow> real" where
  "distance p1 p2 =
     (let a = \<bar>ord_x p2 - ord_x p1\<bar>; b = \<bar>ord_y p2 - ord_y p1\<bar>
      in sqrt (a ^ 2 + b ^ 2))"

subsection \<open>Path conversion and overlay\<close>

text \<open>
  \<open>convertPath(std::vector<vertex>)\<close> reads \<open>vertexLUT_[v]\<close> for every vertex of the
  path; \<open>operator[]\<close> may insert, so the table is threaded through.
\<close>

fun convertPath_lut :: "lut \<Rightarrow> vertex list \<Rightarrow> TGlobalOrd list \<times> lut" where
  "convertPath_lut t [] = ([], t)"
| "convertPath_lut t (v # vs) =
     (let (p, t1) = lut_index t v;
          (ps, t2) = convertPath_lut t1 vs
      in (p # ps, t2))"

definition convertPath ::
  "('g, 'l) GlobalMap \<Rightarrow> vertex list \<Rightarrow> TGlobalOrd list \<times> ('g, 'l) GlobalMap" where
  "convertPath gm path =
     (let (ordPath, t) = convertPath_lut (vertexLUT_m gm) path
      in (ordPath, gm\<lparr>vertexLUT_m := t\<rparr>))"

text \<open>\<open>convertPath(std::vector<TGlobalOrd>)\<close>, the overload that yields pixels.\<close>

definition convertPathPoints ::
  "('g, 'l, 'i) collab \<Rightarrow> ('g, 'l) GlobalMap \<Rightarrow> TGlobalOrd list \<Rightarrow> Point list" where
  "convertPathPoints env gm path =
     map (convertToPoint env (lmap_m gm) (reference_m gm)) path"

text \<open>
  \<open>constructPRM\<close>: one pair of pixels per edge of the graph, a pair being dropped when
  its mirror image is already in the result.
\<close>

fun constructPRM_edges ::
  "('g, 'l, 'i) collab \<Rightarrow> 'l \<Rightarrow> TGlobalOrd \<Rightarrow> Point \<Rightarrow> (vertex \<times> real) list \<Rightarrow>
   (Point \<times> Point) list \<times> lut \<Rightarrow> (Point \<times> Point) list \<times> lut" where
  "constructPRM_edges env lm r pCurrent [] acc = acc"
| "constructPRM_edges env lm r pCurrent (neighbour # others) (prm, t) =
     (let (q, t1) = lut_index t (fst neighbour);
          pNeighbour = convertToPoint env lm r q
      in constructPRM_edges env lm r pCurrent others
           (if list_ex (\<lambda>element. fst element = pNeighbour \<and> snd element = pCurrent) prm
            then (prm, t1) else (prm @ [(pCurrent, pNeighbour)], t1)))"

fun constructPRM_nodes ::
  "('g, 'l, 'i) collab \<Rightarrow> 'l \<Rightarrow> TGlobalOrd \<Rightarrow> (vertex \<times> (vertex \<times> real) list) list \<Rightarrow>
   (Point \<times> Point) list \<times> lut \<Rightarrow> (Point \<times> Point) list \<times> lut" where
  "constructPRM_nodes env lm r [] acc = acc"
| "constructPRM_nodes env lm r (node # others) (prm, t) =
     (let (q, t1) = lut_index t (fst node);
          pCurrent = convertToPoint env lm r q
      in constructPRM_nodes env lm r others
           (constructPRM_edges env lm r pCurrent (snd node) (prm, t1)))"

definition constructPRM ::
  "('g, 'l, 'i) collab \<Rightarrow> ('g, 'l) GlobalMap \<Rightarrow> (Point \<times> Point) list \<times> ('g, 'l) GlobalMap" where
  "constructPRM env gm =
     (let (prm, t) = constructPRM_nodes env (lmap_m gm) (reference_m gm)
                       (container env (graph_m gm)) ([], vertexLUT_m gm)
      in (prm, gm\<lparr>vertexLUT_m := t\<rparr>))"

definition showOverlay ::
  "('g, 'l, 'i) collab \<Rightarrow> ('g, 'l) GlobalMap \<Rightarrow> 'i \<Rightarrow> TGlobalOrd list \<Rightarrow> 'i \<times> ('g, 'l) GlobalMap" where
  "showOverlay env gm m path =
     (let pPath = convertPathPoints env gm path;
          (prm, gm1) = constructPRM env gm;
          m1 = overlayPRM env (lmap_m gm1) m prm
      in (overlayPath env (lmap_m gm1) m1 pPath, gm1))"

subsection \<open>Connecting a vertex to the network\<close>

fun connect_scan ::
  "('g, 'l, 'i) collab \<Rightarrow> 'l \<Rightarrow> Mat \<Rightarrow> TGlobalOrd \<Rightarrow> vertex \<Rightarrow> Point \<Rightarrow> TGlobalOrd \<Rightarrow>
   lut \<Rightarrow> 'g \<Rightarrow> 'g" where
  "connect_scan env lm m r node pNode ordNode [] g = g"
| "connect_scan env lm m r node pNode ordNode ((k, q) # rest) g =
     (if k = node then connect_scan env lm m r node pNode ordNode rest g
      else if canConnect env lm m pNode (convertToPoint env lm r q)
      then connect_scan env lm m r node pNode ordNode rest
             (addEdge env g node k (distance ordNode q))
      else connect_scan env lm m r node pNode ordNode rest g)"

text \<open>
  \<open>connectToExistingNodes(m, node)\<close>. The first statement reads \<open>vertexLUT_[node]\<close>, which
  inserts \<open>node\<close> when it is missing; the loop then visits the table with that entry in
  it, and its own read of \<open>vertexLUT_[node]\<close> finds the same ordinate.
\<close>

definition connectToExistingNodes ::
  "('g, 'l, 'i) collab \<Rightarrow> Mat \<Rightarrow> vertex \<Rightarrow> ('g, 'l) GlobalMap \<Rightarrow> ('g, 'l) GlobalMap" where
  "connectToExistingNodes env m node gm =
     (let (ordNode, t) = lut_index (vertexLUT_m gm) node;
          pNode = convertToPoint env (lmap_m gm) (reference_m gm) ordNode
      in gm\<lparr>graph_m := connect_scan env (lmap_m gm) m (reference_m gm) node pNode ordNode t
                          (graph_m gm),
            vertexLUT_m := t\<rparr>)"

subsection \<open>build\<close>

text \<open>
  What one call of \<open>build\<close> reads that its arguments do not determine: the values of the
  locals \<open>vStart\<close> and \<open>vGoal\<close>, which are declared without an initialiser and are
  assigned only inside the guard \<open>!existsAsVertex(start) || !existsAsVertex(goal)\<close>, and the
  numbers the random generator returns. \<open>draw_x n\<close> and \<open>draw_y n\<close> are the values of
  \<open>xDist(generator)\<close> and \<open>yDist(generator)\<close> in the iteration in which \<open>safetyCnt\<close> is
  \<open>n\<close>.
\<close>

record indet =
  uninit_vStart :: vertex
  uninit_vGoal :: vertex
  draw_x :: "nat \<Rightarrow> real"
  draw_y :: "nat \<Rightarrow> real"

text \<open>\<open>std::round\<close>: to the nearest integer, halves away from zero.\<close>

definition cround :: "real \<Rightarrow> real" where
  "cround r = (if 0 \<le> r then of_int \<lfloor>r + 1 / 2\<rfloor> else - of_int \<lfloor>- r + 1 / 2\<rfloor>)"

definition randomOrd :: "indet \<Rightarrow> nat \<Rightarrow> TGlobalOrd" where
  "randomOrd ind n =
     \<lparr>ord_x = cround (draw_x ind n * 10) / 10, ord_y = cround (draw_y ind n * 10) / 10\<rparr>"

text \<open>
  The sampling loop \<open>while(!foundPath)\<close>, entered with the current value of the
  \<open>unsigned int safetyCnt\<close>. It returns the roadmap, the local \<open>path\<close> and the final
  counter. \<open>continue\<close> re-enters the loop, \<open>break\<close> leaves it with \<open>path\<close> still empty.
\<close>

lemma word_pred_less:
  fixes w :: "32 word"
  shows "w \<noteq> 0 \<Longrightarrow> unat (w - 1) < unat w"
  by (simp add: unat_minus_one unat_gt_0)

lemma safetyCnt_step:
  fixes safetyCnt :: "32 word"
  assumes "safetyCnt \<noteq> 999"
  shows "unat (998 - safetyCnt) < unat (999 - safetyCnt)"
proof -
  have nz: "999 - safetyCnt \<noteq> 0"
    using assms by simp
  have e: "998 - safetyCnt = (999 - safetyCnt) - 1"
    by simp
  show ?thesis
    unfolding e by (rule word_pred_less [OF nz])
qed

function sampleLoop ::
  "('g, 'l, 'i) collab \<Rightarrow> Mat \<Rightarrow> vertex \<Rightarrow> vertex \<Rightarrow> indet \<Rightarrow> ('g, 'l) GlobalMap \<Rightarrow> 32 word \<Rightarrow>
   TGlobalOrd list \<times> ('g, 'l) GlobalMap \<times> 32 word" where
  "sampleLoop env m vStart vGoal ind gm safetyCnt =
     (let cnt = safetyCnt + 1 in
      if cnt = 1000 then ([], gm, cnt)
      else
        (let rnd = randomOrd ind (unat cnt);
             pRand = convertToPoint env (lmap_m gm) (reference_m gm) rnd
         in if \<not> isAccessible env (lmap_m gm) m pRand
            then sampleLoop env m vStart vGoal ind gm cnt
            else
              (let (vRand, gm1) = findOrAdd env gm rnd;
                   gm2 = connectToExistingNodes env m vRand gm1;
                   vPath = shortestPath env (graph_m gm2) vStart vGoal
               in if 0 < length vPath
                  then (let (path, gm3) = convertPath gm2 vPath in (path, gm3, cnt))
                  else sampleLoop env m vStart vGoal ind gm2 cnt)))"
  by pat_completeness auto
termination
  by (relation "measure (\<lambda>(env, m, vStart, vGoal, ind, gm, safetyCnt). unat (999 - safetyCnt))")
     (simp_all add: safetyCnt_step)

declare sampleLoop.simps [simp del]

text \<open>
  Lines 134 to 192 of \<open>build\<close>: the query on the roadmap as it is, the query after
  connecting \<open>vStart\<close> and \<open>vGoal\<close> to the network, and the sampling loop.
\<close>

definition build_search ::
  "('g, 'l, 'i) collab \<Rightarrow> ('g, 'l) GlobalMap \<Rightarrow> Mat \<Rightarrow> vertex \<Rightarrow> vertex \<Rightarrow> indet \<Rightarrow>
   TGlobalOrd list \<times> ('g, 'l) GlobalMap \<times> Mat" where
  "build_search env gm m vStart vGoal ind =
     (let vPath = shortestPath env (graph_m gm) vStart vGoal in
      if 0 < length vPath
      then (let (path, gm1) = convertPath gm vPath in (path, gm1, m))
      else
        (let gm1 = connectToExistingNodes env m vStart gm;
             gm2 = connectToExistingNodes env m vGoal gm1;
             vPath2 = shortestPath env (graph_m gm2) vStart vGoal
         in if 0 < length vPath2
            then (let (path, gm3) = convertPath gm2 vPath2 in (path, gm3, m))
            else (let (path, gm3, cnt) = sampleLoop env m vStart vGoal ind gm2 0
                  in (path, gm3, m))))"

text \<open>
  \<open>build(m, start, goal)\<close>. The map is passed by reference and dilated in place, so the
  dilated map is returned with the path and the roadmap. When both ordinates are vertices
  already, the guarded block is skipped and the search runs on the unset locals.
\<close>

definition build ::
  "('g, 'l, 'i) collab \<Rightarrow> ('g, 'l) GlobalMap \<Rightarrow> Mat \<Rightarrow> TGlobalOrd \<Rightarrow> TGlobalOrd \<Rightarrow> indet \<Rightarrow>
   TGlobalOrd list \<times> ('g, 'l) GlobalMap \<times> Mat" where
  "build env gm m0 start goal ind =
     (let m = expandConfigSpace env (lmap_m gm) m0 (robotDiameter_m gm) in
      if \<not> existsAsVertex gm start \<or> \<not> existsAsVertex gm goal
      then
        (let pStart = convertToPoint env (lmap_m gm) (reference_m gm) start;
             pGoal = convertToPoint env (lmap_m gm) (reference_m gm) goal
         in if \<not> isAccessible env (lmap_m gm) m pStart \<or> \<not> isAccessible env (lmap_m gm) m pGoal
            then ([], gm, m)
            else
              (let (vStart, gm1) = findOrAdd env gm start;
                   (vGoal, gm2) = findOrAdd env gm1 goal
               in build_search env gm2 m vStart vGoal ind))
      else build_search env gm m (uninit_vStart ind) (uninit_vGoal ind) ind)"

section \<open>The planner loop (simulator.cpp)\<close>

text \<open>
  A \<open>geometry_msgs::Pose\<close> is a position and an orientation quaternion, all zero when
  default-constructed. The messages handed to the two publishers are recorded in the
  order in which they are published.
\<close>

record Pose =
  pos_x :: real
  pos_y :: real
  pos_z :: real
  orientation :: "real \<times> real \<times> real \<times> real"

datatype 'i message = Overlay 'i | PoseArray "Pose list"

text \<open>
  The state \<open>prmThread\<close> works on: the members of \<open>Simulator\<close>, the shared buffer, the flag
  \<open>GoalRecieved\<close>, and the locals \<open>ogMap\<close> and \<open>robotPos\<close>, which are declared outside the
  loop and keep their values from one pass to the next.
\<close>

record ('g, 'l, 'i) Simulator =
  gmap_m :: "('g, 'l) GlobalMap"
  currentGoal_m :: TGlobalOrd
  ogMapDeq :: "Mat list"
  poseDeq :: "Pose list"
  GoalRecieved :: bool
  ogMap :: Mat
  robotPos :: Pose
  published :: "'i message list"

text \<open>
  The retry loop \<open>while(path.size() == 0)\<close>, entered with the result of the first call of
  \<open>build\<close> and \<open>cnt = 1\<close>. \<open>inds n\<close> is what the \<open>n\<close>-th call of \<open>build\<close> reads beyond its
  arguments.
\<close>

function retryLoop ::
  "('g, 'l, 'i) collab \<Rightarrow> TGlobalOrd \<Rightarrow> TGlobalOrd \<Rightarrow> (int \<Rightarrow> indet) \<Rightarrow>
   TGlobalOrd list \<times> ('g, 'l) GlobalMap \<times> Mat \<times> int \<Rightarrow>
   TGlobalOrd list \<times> ('g, 'l) GlobalMap \<times> Mat \<times> int" where
  "retryLoop env robotOrd goal inds (path, gm, m, cnt) =
     (if length path = 0
      then
        (let cnt1 = cnt + 1;
             (path1, gm1, m1) = build env gm m robotOrd goal (inds cnt1)
         in if cnt1 > 2 then (path1, gm1, m1, cnt1)
            else retryLoop env robotOrd goal inds (path1, gm1, m1, cnt1))
      else (path, gm, m, cnt))"
  by pat_completeness auto
termination
  by (relation "measure (\<lambda>(env, robotOrd, goal, inds, path, gm, m, cnt). nat (2 - cnt))") auto

declare retryLoop.simps [simp del]

text \<open>
  Lines 118 to 129 of \<open>prmThread\<close>: the first call of \<open>build\<close> and the retry loop. The
  result carries the final value of the attempt counter \<open>cnt\<close>.
\<close>

definition buildWithRetries ::
  "('g, 'l, 'i) collab \<Rightarrow> (int \<Rightarrow> indet) \<Rightarrow> ('g, 'l) GlobalMap \<Rightarrow> Mat \<Rightarrow> TGlobalOrd \<Rightarrow>
   TGlobalOrd \<Rightarrow> TGlobalOrd list \<times> ('g, 'l) GlobalMap \<times> Mat \<times> int" where
  "buildWithRetries env inds gm m robotOrd goal =
     (let (path, gm1, m1) = build env gm m robotOrd goal (inds 1)
      in retryLoop env robotOrd goal inds (path, gm1, m1, 1))"

definition waypoint :: "Pose \<Rightarrow> TGlobalOrd \<Rightarrow> Pose" where
  "waypoint rp w = \<lparr>pos_x = ord_x w, pos_y = ord_y w, pos_z = pos_z rp, orientation = (0, 0, 0, 0)\<rparr>"

text \<open>
  Lines 89 to 100: the front of each deque of the shared buffer is taken when there is
  one; otherwise the local keeps the value of the pass before.
\<close>

definition consumeWorld :: "('g, 'l, 'i) Simulator \<Rightarrow> ('g, 'l, 'i) Simulator" where
  "consumeWorld st =
     (let st1 = (if 0 < length (ogMapDeq st)
                 then st\<lparr>ogMap := hd (ogMapDeq st), ogMapDeq := tl (ogMapDeq st)\<rparr> else st)
      in if 0 < length (poseDeq st1)
         then st1\<lparr>robotPos := hd (poseDeq st1), poseDeq := tl (poseDeq st1)\<rparr> else st1)"

text \<open>
  One pass through the body of the request loop of \<open>prmThread\<close>, from the point where the
  wait on the condition variable has returned with a goal (and \<open>ros::ok()\<close> holds) to the
  end of the body.
\<close>

definition prmCycle ::
  "('g, 'l, 'i) collab \<Rightarrow> (int \<Rightarrow> indet) \<Rightarrow> ('g, 'l, 'i) Simulator \<Rightarrow> ('g, 'l, 'i) Simulator" where
  "prmCycle env inds st =
     (let st1 = consumeWorld (st\<lparr>GoalRecieved := False\<rparr>);
          robotOrd = \<lparr>ord_x = pos_x (robotPos st1), ord_y = pos_y (robotPos st1)\<rparr>;
          st2 = st1\<lparr>gmap_m := setReference robotOrd (gmap_m st1)\<rparr>
      in if mat_empty (ogMap st2) then st2
         else
           (let colourMap = cvtColor env (ogMap st2);
                (path, gm, m, cnt) =
                   buildWithRetries env inds (gmap_m st2) (ogMap st2) robotOrd (currentGoal_m st2);
                (img, gm1) = showOverlay env gm colourMap path;
                st3 = st2\<lparr>gmap_m := gm1, ogMap := m, published := published st2 @ [Overlay img]\<rparr>
            in if 0 < length path
               then st3\<lparr>published :=
                         published st3 @ [PoseArray (map (waypoint (robotPos st3)) path)]\<rparr>
               else st3))"

text \<open>
  What a pass works with, read off \<open>prmCycle\<close>: the pose and the map it has after
  consuming the buffer, and the result of its calls of \<open>build\<close>.
\<close>

definition cyclePose :: "('g, 'l, 'i) Simulator \<Rightarrow> Pose" where
  "cyclePose st = robotPos (consumeWorld (st\<lparr>GoalRecieved := False\<rparr>))"

definition cycleMap :: "('g, 'l, 'i) Simulator \<Rightarrow> Mat" where
  "cycleMap st = ogMap (consumeWorld (st\<lparr>GoalRecieved := False\<rparr>))"

definition cycleBuild ::
  "('g, 'l, 'i) collab \<Rightarrow> (int \<Rightarrow> indet) \<Rightarrow> ('g, 'l, 'i) Simulator \<Rightarrow>
   TGlobalOrd list \<times> ('g, 'l) GlobalMap \<times> Mat \<times> int" where
  "cycleBuild env inds st =
     (let st1 = consumeWorld (st\<lparr>GoalRecieved := False\<rparr>);
          robotOrd = \<lparr>ord_x = pos_x (robotPos st1), ord_y = pos_y (robotPos st1)\<rparr>
      in buildWithRetries env inds (setReference robotOrd (gmap_m st1)) (ogMap st1) robotOrd
           (currentGoal_m st1))"

text \<open>The messages a pass adds to those published before it.\<close>

definition cycleOutput ::
  "('g, 'l, 'i) collab \<Rightarrow> (int \<Rightarrow> indet) \<Rightarrow> ('g, 'l, 'i) Simulator \<Rightarrow> 'i message list" where
  "cycleOutput env inds st = drop (length (published st)) (published (prmCycle env inds st))"

fun isOverlay :: "'i message \<Rightarrow> bool" where
  "isOverlay (Overlay img) = True"
| "isOverlay (PoseArray ps) = False"

section \<open>The collaborators, modelled from the specification\<close>

text \<open>
  The classes \<open>Graph\<close> and \<open>LocalMap\<close> and the method \<open>optimisePath\<close> are declared or used
  in the sources but not implemented there. The general theorems below take them as
  parameters; the definitions of this section give one concrete instance, written from
  sections 4.1, 4.2 and 4.3.4 of the specification, on which the general theorems are
  run at concrete inputs.
\<close>

subsection \<open>Graph\<close>

text \<open>
  Modelled from the spec: the class \<open>Graph\<close> (section 4.2), a mapping from vertex to its
  neighbours with weights, with the degree cap and the edge length cap given to the
  constructor.
\<close>

record Graph =
  g_density :: nat
  g_maxLen :: real
  g_nodes :: "(vertex \<times> (vertex \<times> real) list) list"

definition Graph_new :: "nat \<Rightarrow> real \<Rightarrow> Graph" where
  "Graph_new density maxLen = \<lparr>g_density = density, g_maxLen = maxLen, g_nodes = []\<rparr>"

fun nodes_touch ::
  "vertex \<Rightarrow> (vertex \<times> (vertex \<times> real) list) list \<Rightarrow> (vertex \<times> (vertex \<times> real) list) list" where
  "nodes_touch v [] = [(v, [])]"
| "nodes_touch v ((u, es) # ns) =
     (if v = u then (u, es) # ns
      else if v < u then (v, []) # (u, es) # ns
      else (u, es) # nodes_touch v ns)"

text \<open>Modelled from the spec: \<open>add_vertex\<close>, idempotent on a vertex already present.\<close>

definition Graph_addVertex :: "Graph \<Rightarrow> vertex \<Rightarrow> Graph" where
  "Graph_addVertex g v = g\<lparr>g_nodes := nodes_touch v (g_nodes g)\<rparr>"

definition Graph_neighbours :: "Graph \<Rightarrow> vertex \<Rightarrow> (vertex \<times> real) list" where
  "Graph_neighbours g v = (case map_of (g_nodes g) v of Some es \<Rightarrow> es | None \<Rightarrow> [])"

fun nodes_link ::
  "vertex \<Rightarrow> vertex \<times> real \<Rightarrow> (vertex \<times> (vertex \<times> real) list) list \<Rightarrow>
   (vertex \<times> (vertex \<times> real) list) list" where
  "nodes_link u e [] = []"
| "nodes_link u e ((k, es) # ns) =
     (if u = k then (k, es @ [e]) # ns else (k, es) # nodes_link u e ns)"

text \<open>
  Modelled from the spec: \<open>add_edge(u, v, w)\<close> refuses a self-edge, a weight that is not
  positive or exceeds the length cap, an endpoint at capacity and an edge that exists;
  otherwise it inserts the edge in both directions.
\<close>

definition Graph_addEdge :: "Graph \<Rightarrow> vertex \<Rightarrow> vertex \<Rightarrow> real \<Rightarrow> Graph" where
  "Graph_addEdge g u v w =
     (if u = v \<or> w \<le> 0 \<or> g_maxLen g < w
         \<or> g_density g \<le> length (Graph_neighbours g u)
         \<or> g_density g \<le> length (Graph_neighbours g v)
         \<or> list_ex (\<lambda>e. fst e = v) (Graph_neighbours g u)
      then g
      else g\<lparr>g_nodes := nodes_link v (u, w)
                           (nodes_link u (v, w) (nodes_touch v (nodes_touch u (g_nodes g))))\<rparr>)"

text \<open>
  Modelled from the spec: \<open>shortest_path\<close>, Dijkstra's algorithm. A label is a tentative
  distance, the vertex it belongs to and the path that reaches it (last vertex first).
  Each round settles the open vertex of least distance, the smaller vertex winning a tie,
  so there are at most as many rounds as vertices. The result is empty when the
  destination is unreachable or the source is no vertex of the graph.
\<close>

type_synonym label = "real \<times> vertex \<times> vertex list"

definition label_before :: "label \<Rightarrow> label \<Rightarrow> bool" where
  "label_before a b = (fst a < fst b \<or> (fst a = fst b \<and> fst (snd a) < fst (snd b)))"

fun least_label :: "label \<Rightarrow> label list \<Rightarrow> label" where
  "least_label a [] = a"
| "least_label a (b # bs) = (if label_before b a then least_label b bs else least_label a bs)"

fun relax :: "label \<Rightarrow> label list \<Rightarrow> label list" where
  "relax a [] = [a]"
| "relax a (b # bs) =
     (if fst (snd a) = fst (snd b)
      then (if fst a < fst b then a # bs else b # bs)
      else b # relax a bs)"

fun relax_all :: "label \<Rightarrow> vertex list \<Rightarrow> (vertex \<times> real) list \<Rightarrow> label list \<Rightarrow> label list" where
  "relax_all a settled [] opn = opn"
| "relax_all a settled ((v, w) # es) opn =
     (if v \<in> set settled then relax_all a settled es opn
      else relax_all a settled es (relax (fst a + w, v, v # snd (snd a)) opn))"

fun dijkstra :: "nat \<Rightarrow> Graph \<Rightarrow> vertex \<Rightarrow> label list \<Rightarrow> vertex list \<Rightarrow> vertex list" where
  "dijkstra 0 g dst opn settled = []"
| "dijkstra (Suc n) g dst [] settled = []"
| "dijkstra (Suc n) g dst (a # as) settled =
     (let b = least_label a as; u = fst (snd b) in
      if u = dst then rev (snd (snd b))
      else dijkstra n g dst
             (relax_all b (u # settled) (Graph_neighbours g u)
                (filter (\<lambda>c. fst (snd c) \<noteq> u) (a # as)))
             (u # settled))"

definition Graph_shortestPath :: "Graph \<Rightarrow> vertex \<Rightarrow> vertex \<Rightarrow> vertex list" where
  "Graph_shortestPath g src dst =
     (if map_of (g_nodes g) src = None then []
      else dijkstra (Suc (length (g_nodes g))) g dst [(0, src, [src])] [])"

subsection \<open>LocalMap\<close>

text \<open>
  Modelled from the spec: the class \<open>LocalMap\<close> (section 4.1, there called Grid), which
  holds the side length of the square map in metres and the resolution in metres per
  cell.
\<close>

record LocalMap =
  lm_size :: real
  lm_res :: real

definition LocalMap_new :: "real \<Rightarrow> real \<Rightarrow> LocalMap" where
  "LocalMap_new mapSize res = \<lparr>lm_size = mapSize, lm_res = res\<rparr>"

definition iround :: "real \<Rightarrow> int" where
  "iround r = (if 0 \<le> r then \<lfloor>r + 1 / 2\<rfloor> else - \<lfloor>- r + 1 / 2\<rfloor>)"

text \<open>
  Modelled from the spec: \<open>world_to_cell\<close>, with
  \<open>col = round((p.x - ref.x)/res + width/2)\<close> and
  \<open>row = round(height/2 - (p.y - ref.y)/res)\<close>, the width and the height in cells being
  the side length over the resolution.
\<close>

definition LocalMap_convertToPoint :: "LocalMap \<Rightarrow> TGlobalOrd \<Rightarrow> TGlobalOrd \<Rightarrow> Point" where
  "LocalMap_convertToPoint lm r p =
     (let cells = lm_size lm / lm_res lm
      in (iround ((ord_x p - ord_x r) / lm_res lm + cells / 2),
          iround (cells / 2 - (ord_y p - ord_y r) / lm_res lm)))"

text \<open>
  Modelled from the spec: \<open>is_free\<close>, true iff the cell is inside the raster and its byte
  exceeds 127.
\<close>

definition LocalMap_isAccessible :: "LocalMap \<Rightarrow> Mat \<Rightarrow> Point \<Rightarrow> bool" where
  "LocalMap_isAccessible lm m c =
     (0 \<le> fst c \<and> fst c < int (mat_cols m) \<and> 0 \<le> snd c \<and> snd c < int (mat_rows m)
      \<and> 127 < mat_at m (snd c) (fst c))"

text \<open>
  Modelled from the spec: the Bresenham traversal of the segment from one cell to
  another, by the integer error recurrence; the fuel is the number of cells visited.
\<close>

fun bresenham ::
  "nat \<Rightarrow> int \<Rightarrow> int \<Rightarrow> int \<Rightarrow> int \<Rightarrow> int \<Rightarrow> int \<Rightarrow> int \<Rightarrow> int \<Rightarrow> int \<Rightarrow> Point list" where
  "bresenham 0 x0 y0 x1 y1 dx dy sx sy err = []"
| "bresenham (Suc n) x0 y0 x1 y1 dx dy sx sy err =
     (x0, y0) #
     (if x0 = x1 \<and> y0 = y1 then []
      else
        (let e2 = 2 * err;
             stepx = (dy \<le> e2);
             stepy = (e2 \<le> dx)
         in bresenham n (if stepx then x0 + sx else x0) (if stepy then y0 + sy else y0) x1 y1
              dx dy sx sy
              ((if stepx then err + dy else err) + (if stepy then dx else 0))))"

definition segment_cells :: "Point \<Rightarrow> Point \<Rightarrow> Point list" where
  "segment_cells a b =
     (let dx = \<bar>fst b - fst a\<bar>; dy = - \<bar>snd b - snd a\<bar>
      in bresenham (Suc (nat (max dx (- dy)))) (fst a) (snd a) (fst b) (snd b) dx dy
           (if fst a < fst b then 1 else - 1) (if snd a < snd b then 1 else - 1) (dx + dy))"

text \<open>Modelled from the spec: \<open>can_connect\<close>, true iff every cell of the segment is free.\<close>

definition LocalMap_canConnect :: "LocalMap \<Rightarrow> Mat \<Rightarrow> Point \<Rightarrow> Point \<Rightarrow> bool" where
  "LocalMap_canConnect lm m a b = list_all (LocalMap_isAccessible lm m) (segment_cells a b)"

text \<open>
  Modelled from the spec: \<open>expand_cspace\<close>, which dilates the cells that are not free by
  \<open>ceil(diameter / (2 * resolution))\<close> cells with a square structuring element: a cell
  with a cell of the raster that is not free in its window becomes occupied.
\<close>

definition window :: "int \<Rightarrow> int \<Rightarrow> int \<Rightarrow> Point list" where
  "window k row col = concat (map (\<lambda>i. map (\<lambda>j. (col + j, row + i)) [- k..k]) [- k..k])"

definition blocked :: "Mat \<Rightarrow> Point \<Rightarrow> bool" where
  "blocked m c =
     (0 \<le> fst c \<and> fst c < int (mat_cols m) \<and> 0 \<le> snd c \<and> snd c < int (mat_rows m)
      \<and> mat_at m (snd c) (fst c) \<le> 127)"

definition LocalMap_expandConfigSpace :: "LocalMap \<Rightarrow> Mat \<Rightarrow> real \<Rightarrow> Mat" where
  "LocalMap_expandConfigSpace lm m diameter =
     m\<lparr>mat_at := (\<lambda>row col.
          if list_ex (blocked m) (window \<lceil>diameter / (2 * lm_res lm)\<rceil> row col)
          then 0 else mat_at m row col)\<rparr>"

text \<open>
  Modelled from the spec: the overlay (section 4.3.5). A colour image is kept as the
  raster it was made from together with the segments drawn on it.
\<close>

record Image =
  img_base :: Mat
  img_prm :: "(Point \<times> Point) list"
  img_path :: "Point list"

definition spec_env :: "(Graph, LocalMap, Image) collab" where
  "spec_env =
     \<lparr>newGraph = Graph_new,
      addVertex = Graph_addVertex,
      addEdge = Graph_addEdge,
      shortestPath = Graph_shortestPath,
      container = g_nodes,
      newLocalMap = LocalMap_new,
      convertToPoint = LocalMap_convertToPoint,
      isAccessible = LocalMap_isAccessible,
      canConnect = LocalMap_canConnect,
      expandConfigSpace = LocalMap_expandConfigSpace,
      overlayPRM = (\<lambda>lm img prm. img\<lparr>img_prm := img_prm img @ prm\<rparr>),
      overlayPath = (\<lambda>lm img pts. img\<lparr>img_path := pts\<rparr>),
      cvtColor = (\<lambda>m. \<lparr>img_base = m, img_prm = [], img_path = []\<rparr>)\<rparr>"

text \<open>
  Modelled from the spec: \<open>optimise_path\<close> (section 4.3.4; the method is declared in the
  planner's header and implemented nowhere in the sources). From \<open>p[i]\<close> it jumps to the
  last later point that \<open>p[i]\<close> can connect to. The specification does not say what
  happens when there is no such point: the result is \<open>None\<close> then.
\<close>

fun last_connectable :: "(TGlobalOrd \<Rightarrow> bool) \<Rightarrow> TGlobalOrd list \<Rightarrow> TGlobalOrd list option" where
  "last_connectable ok [] = None"
| "last_connectable ok (q # qs) =
     (case last_connectable ok qs of
        Some r \<Rightarrow> Some r
      | None \<Rightarrow> if ok q then Some (q # qs) else None)"

lemma last_connectable_shorter:
  "last_connectable ok qs = Some r \<Longrightarrow> length r \<le> length qs"
  by (induction qs) (auto split: option.splits if_splits)

function optimise_path ::
  "(TGlobalOrd \<Rightarrow> TGlobalOrd \<Rightarrow> bool) \<Rightarrow> TGlobalOrd list \<Rightarrow> TGlobalOrd list option" where
  "optimise_path cc [] = Some []"
| "optimise_path cc [p] = Some [p]"
| "optimise_path cc (p # q # qs) =
     (case last_connectable (cc p) (q # qs) of
        None \<Rightarrow> None
      | Some r \<Rightarrow> map_option ((#) p) (optimise_path cc r))"
  by pat_completeness auto
termination
proof (relation "measure (\<lambda>(cc, ps). length ps)")
  show "wf (measure (\<lambda>(cc :: TGlobalOrd \<Rightarrow> TGlobalOrd \<Rightarrow> bool, ps :: TGlobalOrd list). length ps))"
    by simp
next
  fix cc :: "TGlobalOrd \<Rightarrow> TGlobalOrd \<Rightarrow> bool" and p q :: TGlobalOrd and qs r :: "TGlobalOrd list"
  assume "last_connectable (cc p) (q # qs) = Some r"
  then have "length r \<le> length (q # qs)"
    by (rule last_connectable_shorter)
  then show "((cc, r), (cc, p # q # qs)) \<in> measure (\<lambda>(cc, ps). length ps)"
    by simp
qed

text \<open>The line-of-sight test between two ordinates that \<open>optimise_path\<close> is given.\<close>

definition lineOfSight ::
  "('g, 'l, 'i) collab \<Rightarrow> ('g, 'l) GlobalMap \<Rightarrow> Mat \<Rightarrow> TGlobalOrd \<Rightarrow> TGlobalOrd \<Rightarrow> bool" where
  "lineOfSight env gm m a b =
     canConnect env (lmap_m gm) m
       (convertToPoint env (lmap_m gm) (reference_m gm) a)
       (convertToPoint env (lmap_m gm) (reference_m gm) b)"

section \<open>Sequences of calls\<close>

text \<open>
  A sequence of calls of \<open>findOrAdd\<close>, one per ordinate of the list. Each call is recorded
  with the vertex it returned and with whether it allocated that vertex.
\<close>

fun findOrAdd_seq ::
  "('g, 'l, 'i) collab \<Rightarrow> ('g, 'l) GlobalMap \<Rightarrow> TGlobalOrd list \<Rightarrow>
   (vertex \<times> bool) list \<times> ('g, 'l) GlobalMap" where
  "findOrAdd_seq env gm [] = ([], gm)"
| "findOrAdd_seq env gm (p # ps) =
     (let fresh = \<not> existsAsVertex gm p;
          (v, gm1) = findOrAdd env gm p;
          (rs, gm2) = findOrAdd_seq env gm1 ps
      in ((v, fresh) # rs, gm2))"

text \<open>
  The table of a roadmap on which only \<open>findOrAdd\<close> has worked: its keys are the
  identifiers issued so far, in order, and no ordinate occurs twice.
\<close>

definition lut_dense :: "('g, 'l) GlobalMap \<Rightarrow> bool" where
  "lut_dense gm = (map fst (vertexLUT_m gm) = [0..<nextVertexId_m gm]
                   \<and> distinct (map snd (vertexLUT_m gm)))"

text \<open>
  Properties of the table: its keys ascend strictly, as in any \<open>std::map\<close>; a later table
  extends an earlier one when every entry of the earlier one is still there; and every key
  lies below the next identifier.
\<close>

definition lut_sorted :: "lut \<Rightarrow> bool" where
  "lut_sorted t = sorted_wrt (<) (map fst t)"

definition lut_extends :: "lut \<Rightarrow> lut \<Rightarrow> bool" where
  "lut_extends t t' = (\<forall>k q. map_of t k = Some q \<longrightarrow> map_of t' k = Some q)"

definition lut_wf :: "('g, 'l) GlobalMap \<Rightarrow> bool" where
  "lut_wf gm = (lut_sorted (vertexLUT_m gm)
                \<and> list_all (\<lambda>k. k < nextVertexId_m gm) (map fst (vertexLUT_m gm)))"

section \<open>Concrete inputs\<close>

text \<open>
  A planner for a map of 6 m by 6 m at 0.5 m per cell (12 by 12 cells) and a robot of
  0.2 m, so that the dilation is by one cell. The world ordinate \<open>(x, y)\<close> falls into
  column \<open>2x + 6\<close> and row \<open>6 - 2y\<close> when the reference is the origin.
\<close>

abbreviation pt :: "real \<Rightarrow> real \<Rightarrow> TGlobalOrd" where
  "pt a b \<equiv> \<lparr>ord_x = a, ord_y = b\<rparr>"

definition lm0 :: LocalMap where
  "lm0 = LocalMap_new 6 (1 / 2)"

definition g0 :: Graph where
  "g0 = Graph_new MaxGraphDensity MaxDistance"

abbreviation gm0 :: "(Graph, LocalMap) GlobalMap" where
  "gm0 \<equiv> \<lparr>graph_m = g0, lmap_m = lm0, vertexLUT_m = [], nextVertexId_m = 0,
           reference_m = pt 0 0, mapSize_m = 6, robotDiameter_m = 1 / 5\<rparr>"

text \<open>Three rasters: all cells free; the cell of \<open>(1, 0)\<close> occupied; the cell of \<open>(0, 0)\<close> occupied.\<close>

definition m_free :: Mat where
  "m_free = \<lparr>mat_rows = 12, mat_cols = 12, mat_at = (\<lambda>row col. 255)\<rparr>"

definition m_goal :: Mat where
  "m_goal = \<lparr>mat_rows = 12, mat_cols = 12,
             mat_at = (\<lambda>row col. if row = 6 \<and> col = 8 then 0 else 255)\<rparr>"

definition m_wall :: Mat where
  "m_wall = \<lparr>mat_rows = 12, mat_cols = 12,
             mat_at = (\<lambda>row col. if row = 6 \<and> col = 6 then 0 else 255)\<rparr>"

definition m_none :: Mat where
  "m_none = \<lparr>mat_rows = 0, mat_cols = 0, mat_at = (\<lambda>row col. 0)\<rparr>"

abbreviation cspace :: "Mat \<Rightarrow> Mat" where
  "cspace m \<equiv> LocalMap_expandConfigSpace lm0 m (1 / 5)"

text \<open>
  What the calls of \<open>build\<close> read beyond their arguments. \<open>ind_mid\<close>: every draw is
  \<open>(0.04, -0.02)\<close>, which rounds to the origin. \<open>ind_near\<close>: the first three draws round to
  \<open>(-1, 0)\<close>, \<open>(-0.9, 0)\<close> and \<open>(0, 0)\<close>. In both the unset locals hold 0 and 1.
\<close>

definition ind_mid :: indet where
  "ind_mid = \<lparr>uninit_vStart = 0, uninit_vGoal = 1,
               draw_x = (\<lambda>n. 1 / 25), draw_y = (\<lambda>n. - 1 / 50)\<rparr>"

definition ind_near :: indet where
  "ind_near = \<lparr>uninit_vStart = 0, uninit_vGoal = 1,
                draw_x = (\<lambda>n. if n = 1 then - 51 / 50 else if n = 2 then - 93 / 100 else 1 / 25),
                draw_y = (\<lambda>n. 0)\<rparr>"

definition ind_swap :: indet where
  "ind_swap = \<lparr>uninit_vStart = 1, uninit_vGoal = 0,
                draw_x = (\<lambda>n. 1 / 25), draw_y = (\<lambda>n. - 1 / 50)\<rparr>"

text \<open>
  Calls of \<open>build\<close> on a fresh planner: from \<open>(-2, 0)\<close> to \<open>(2, 0)\<close> on the free raster with
  either source of draws, and from \<open>(-1, 0)\<close> to \<open>(1, 0)\<close>. Then calls on the roadmap the
  last one leaves behind: the same request again once the cell of the goal is occupied
  (with the unset locals holding 0 and 1, and holding 1 and 0), and a request from
  \<open>(-1, 1)\<close> once the cell of the origin is occupied.
\<close>

definition run_mid :: "TGlobalOrd list \<times> (Graph, LocalMap) GlobalMap \<times> Mat" where
  "run_mid = build spec_env (GlobalMap_new spec_env 6 (1 / 2) (1 / 5)) m_free
               (pt (- 2) 0) (pt 2 0) ind_mid"

definition run_near :: "TGlobalOrd list \<times> (Graph, LocalMap) GlobalMap \<times> Mat" where
  "run_near = build spec_env (GlobalMap_new spec_env 6 (1 / 2) (1 / 5)) m_free
                (pt (- 2) 0) (pt 2 0) ind_near"

definition run_direct :: "TGlobalOrd list \<times> (Graph, LocalMap) GlobalMap \<times> Mat" where
  "run_direct = build spec_env (GlobalMap_new spec_env 6 (1 / 2) (1 / 5)) m_free
                  (pt (- 1) 0) (pt 1 0) ind_mid"

definition run_again :: "TGlobalOrd list \<times> (Graph, LocalMap) GlobalMap \<times> Mat" where
  "run_again = build spec_env (fst (snd run_direct)) m_goal (pt (- 1) 0) (pt 1 0) ind_mid"

definition run_swapped :: "TGlobalOrd list \<times> (Graph, LocalMap) GlobalMap \<times> Mat" where
  "run_swapped = build spec_env (fst (snd run_direct)) m_goal (pt (- 1) 0) (pt 1 0) ind_swap"

definition run_wall :: "TGlobalOrd list \<times> (Graph, LocalMap) GlobalMap \<times> Mat" where
  "run_wall = build spec_env (fst (snd run_direct)) m_wall (pt (- 1) 1) (pt 1 0) ind_mid"

text \<open>
  Modelled from the spec: \<open>violates_dispersion(p, r)\<close> (the header declares it as
  \<open>violatingSpace\<close>; no source file implements or calls it), true iff some vertex of the
  table lies at a distance below \<open>r\<close> from \<open>p\<close>.
\<close>

definition violatingSpace :: "lut \<Rightarrow> TGlobalOrd \<Rightarrow> real \<Rightarrow> bool" where
  "violatingSpace t p r = list_ex (\<lambda>e. distance (snd e) p < r) t"

text \<open>
  States of the planner loop at the moment a goal request for \<open>(1, 0)\<close> has arrived: a
  fresh planner, one pose with \<open>z = 7\<close> and one raster in the buffer.
\<close>

definition pose0 :: Pose where
  "pose0 = \<lparr>pos_x = 0, pos_y = 0, pos_z = 7, orientation = (0, 0, 0, 1)\<rparr>"

definition sim0 :: "Mat \<Rightarrow> (Graph, LocalMap, Image) Simulator" where
  "sim0 m =
     \<lparr>gmap_m = GlobalMap_new spec_env 6 (1 / 2) (1 / 5),
      currentGoal_m = pt 1 0,
      ogMapDeq = [m],
      poseDeq = [pose0],
      GoalRecieved = True,
      ogMap = m_none,
      robotPos = \<lparr>pos_x = 0, pos_y = 0, pos_z = 0, orientation = (0, 0, 0, 0)\<rparr>,
      published = []\<rparr>"

section \<open>General properties\<close>

subsection \<open>The table\<close>

lemma ord_eq_iff: "(ord_x q = ord_x p \<and> ord_y q = ord_y p) = (q = (p :: TGlobalOrd))"
  by (cases p, cases q) auto

lemma lut_exists_iff: "lut_exists t p = (p \<in> snd ` set t)"
  by (induction t) (auto simp: ord_eq_iff)

lemma lut_lookup_None_iff: "(lut_lookup t p = None) = (\<not> lut_exists t p)"
  by (induction t) (auto split: if_splits)

lemma lut_lookup_exists: "lut_exists t p \<Longrightarrow> \<exists>v. lut_lookup t p = Some v"
  using lut_lookup_None_iff [of t p] by auto

lemma lut_lookup_Some: "lut_lookup t p = Some v \<Longrightarrow> (v, p) \<in> set t"
  by (induction t) (auto simp: ord_eq_iff split: if_splits)

lemma lut_extends_refl: "lut_extends t t"
  by (simp add: lut_extends_def)

lemma lut_extends_trans: "lut_extends t t1 \<Longrightarrow> lut_extends t1 t2 \<Longrightarrow> lut_extends t t2"
  by (simp add: lut_extends_def)

lemma set_lut_insert: "fst ` set (lut_insert v p t) = insert v (fst ` set t)"
proof (induction t)
  case Nil
  then show ?case by simp
next
  case (Cons e t)
  obtain k q where e: "e = (k, q)" by (cases e)
  show ?case
  proof (cases "v = k")
    case True
    then show ?thesis by (auto simp: e)
  next
    case False
    show ?thesis
    proof (cases "v < k")
      case True
      then show ?thesis using False by (simp add: e insert_commute)
    next
      case nl: False
      have "fst ` set (lut_insert v p (e # t)) = insert k (fst ` set (lut_insert v p t))"
        using False nl by (simp add: e)
      then show ?thesis by (simp add: Cons.IH e insert_commute)
    qed
  qed
qed

lemma lut_insert_sorted: "lut_sorted t \<Longrightarrow> lut_sorted (lut_insert v p t)"
proof (induction t)
  case Nil
  then show ?case by (simp add: lut_sorted_def)
next
  case (Cons e t)
  obtain k q where e: "e = (k, q)" by (cases e)
  from Cons.prems have t: "lut_sorted t" and k: "\<forall>j \<in> fst ` set t. k < j"
    by (auto simp: lut_sorted_def e)
  have "\<forall>j \<in> fst ` set (lut_insert v p t). k < j" if "k < v"
    using k that by (simp add: set_lut_insert)
  then show ?case
    using Cons.IH [OF t] Cons.prems k by (auto simp: lut_sorted_def e)
qed

lemma map_of_lut_insert:
  "lut_sorted t \<Longrightarrow>
   map_of (lut_insert v p t) k = (if k = v \<and> map_of t v = None then Some p else map_of t k)"
proof (induction t)
  case Nil
  then show ?case by simp
next
  case (Cons e t)
  obtain j q where e: "e = (j, q)" by (cases e)
  from Cons.prems have t: "lut_sorted t" and j: "\<forall>i \<in> fst ` set t. j < i"
    by (auto simp: lut_sorted_def e)
  have none: "map_of t v = None" if "v < j"
  proof -
    have "v \<notin> fst ` set t" using j that by auto
    then show ?thesis by (simp add: map_of_eq_None_iff)
  qed
  show ?case
    using Cons.IH [OF t] none by (auto simp: e)
qed

lemma lut_insert_extends: "lut_sorted t \<Longrightarrow> lut_extends t (lut_insert v p t)"
  by (auto simp: lut_extends_def map_of_lut_insert)

lemma lut_index_props:
  assumes "lut_sorted t" and "lut_index t v = (p, t')"
  shows "lut_sorted t' \<and> lut_extends t t' \<and> map_of t' v = Some p"
proof (cases "map_of t v")
  case None
  with assms(2) have "t' = lut_insert v \<lparr>ord_x = 0, ord_y = 0\<rparr> t" and "p = \<lparr>ord_x = 0, ord_y = 0\<rparr>"
    by (auto simp: lut_index_def)
  then show ?thesis
    using assms(1) None by (simp add: lut_insert_sorted lut_insert_extends map_of_lut_insert)
next
  case (Some q)
  with assms show ?thesis by (auto simp: lut_index_def lut_extends_refl)
qed

lemma convertPath_lut_props:
  assumes "lut_sorted t" and "convertPath_lut t vs = (ps, t')"
  shows "lut_sorted t' \<and> lut_extends t t' \<and> map (map_of t') vs = map Some ps"
  using assms
proof (induction vs arbitrary: t ps t')
  case Nil
  then show ?case by (simp add: lut_extends_refl)
next
  case (Cons v vs)
  obtain p t1 where i: "lut_index t v = (p, t1)" by (cases "lut_index t v")
  obtain qs t2 where c: "convertPath_lut t1 vs = (qs, t2)" by (cases "convertPath_lut t1 vs")
  from Cons.prems(2) i c have ps: "ps = p # qs" and t': "t' = t2" by auto
  note a = lut_index_props [OF Cons.prems(1) i]
  then have s1: "lut_sorted t1" by simp
  note b = Cons.IH [OF s1 c]
  have "map_of t2 v = Some p"
    using a b by (auto simp: lut_extends_def)
  then show ?case
    using a b by (auto simp: ps t' intro: lut_extends_trans)
qed

lemma convertPath_props:
  assumes "lut_sorted (vertexLUT_m gm)" and "convertPath gm vs = (ps, gm')"
  shows "lut_sorted (vertexLUT_m gm') \<and> lut_extends (vertexLUT_m gm) (vertexLUT_m gm')
         \<and> map (map_of (vertexLUT_m gm')) vs = map Some ps
         \<and> graph_m gm' = graph_m gm"
proof -
  obtain qs t where c: "convertPath_lut (vertexLUT_m gm) vs = (qs, t)"
    by (cases "convertPath_lut (vertexLUT_m gm) vs")
  with assms(2) have "ps = qs" and "gm' = gm\<lparr>vertexLUT_m := t\<rparr>"
    by (auto simp: convertPath_def)
  then show ?thesis
    using convertPath_lut_props [OF assms(1) c] by simp
qed

lemma convertPath_length: "convertPath gm vs = (ps, gm') \<Longrightarrow> length ps = length vs"
proof -
  have "\<And>t ps t'. convertPath_lut t vs = (ps, t') \<Longrightarrow> length ps = length vs"
    by (induction vs) (auto split: prod.splits)
  then show "convertPath gm vs = (ps, gm') \<Longrightarrow> length ps = length vs"
    by (auto simp: convertPath_def split: prod.splits)
qed

lemma convertPath_graph: "convertPath gm vs = (ps, gm') \<Longrightarrow> graph_m gm' = graph_m gm"
  by (auto simp: convertPath_def split: prod.splits)

lemma connect_props:
  assumes "lut_sorted (vertexLUT_m gm)"
  shows "lut_sorted (vertexLUT_m (connectToExistingNodes env m node gm))
         \<and> lut_extends (vertexLUT_m gm) (vertexLUT_m (connectToExistingNodes env m node gm))"
proof -
  obtain p t where i: "lut_index (vertexLUT_m gm) node = (p, t)"
    by (cases "lut_index (vertexLUT_m gm) node")
  then have "vertexLUT_m (connectToExistingNodes env m node gm) = t"
    by (simp add: connectToExistingNodes_def)
  then show ?thesis
    using lut_index_props [OF assms i] by simp
qed

lemma findOrAdd_props:
  assumes "lut_sorted (vertexLUT_m gm)" and "findOrAdd env gm p = (v, gm')"
  shows "lut_sorted (vertexLUT_m gm') \<and> lut_extends (vertexLUT_m gm) (vertexLUT_m gm')"
proof (cases "existsAsVertex gm p")
  case True
  then obtain w where "lut_lookup (vertexLUT_m gm) p = Some w"
    using lut_lookup_exists by (auto simp: existsAsVertex_def)
  with True assms show ?thesis
    by (auto simp: findOrAdd_def lookup_def lut_extends_refl)
next
  case False
  with assms(2) have "vertexLUT_m gm' = lut_insert (nextVertexId_m gm) p (vertexLUT_m gm)"
    by (auto simp: findOrAdd_def nextVertexId_def)
  then show ?thesis
    using assms(1) by (simp add: lut_insert_sorted lut_insert_extends)
qed

lemma findOrAdd_wf:
  assumes "lut_wf gm" and "findOrAdd env gm p = (v, gm')"
  shows "lut_wf gm' \<and> map_of (vertexLUT_m gm') v = Some p"
proof (cases "existsAsVertex gm p")
  case True
  then obtain w where w: "lut_lookup (vertexLUT_m gm) p = Some w"
    using lut_lookup_exists by (auto simp: existsAsVertex_def)
  with True assms(2) have eq: "gm' = gm" "v = w"
    by (auto simp: findOrAdd_def lookup_def)
  have "(w, p) \<in> set (vertexLUT_m gm)" using w by (rule lut_lookup_Some)
  moreover have "distinct (map fst (vertexLUT_m gm))"
    using assms(1) by (simp add: lut_wf_def lut_sorted_def strict_sorted_iff)
  ultimately have "map_of (vertexLUT_m gm) w = Some p" by simp
  then show ?thesis using assms(1) eq by simp
next
  case False
  let ?n = "nextVertexId_m gm"
  from False assms(2) have v: "v = ?n"
    and t: "vertexLUT_m gm' = lut_insert ?n p (vertexLUT_m gm)"
    and n: "nextVertexId_m gm' = ?n + 1"
    by (auto simp: findOrAdd_def nextVertexId_def)
  have below: "\<forall>k \<in> fst ` set (vertexLUT_m gm). k < ?n"
    using assms(1) by (auto simp: lut_wf_def list_all_iff)
  then have "?n \<notin> fst ` set (vertexLUT_m gm)" by auto
  then have none: "map_of (vertexLUT_m gm) ?n = None" by (simp add: map_of_eq_None_iff)
  have s: "lut_sorted (vertexLUT_m gm)" using assms(1) by (simp add: lut_wf_def)
  have "list_all (\<lambda>k. k < nextVertexId_m gm') (map fst (vertexLUT_m gm'))"
    using below by (auto simp: list_all_iff t n set_lut_insert)
  then show ?thesis
    using s none by (simp add: lut_wf_def t v lut_insert_sorted map_of_lut_insert)
qed

lemma unat_succ_word:
  fixes s :: "32 word"
  assumes "unat s < 1000"
  shows "unat (s + 1) = Suc (unat s)"
proof -
  have "unat s + unat (1 :: 32 word) < 2 ^ LENGTH(32)"
    using assms by simp
  then have "unat (s + 1) = unat s + unat (1 :: 32 word)"
    by (simp only: unat_add_lem)
  then show ?thesis by simp
qed

lemma word_1000: "(c :: 32 word) = 1000 \<longleftrightarrow> unat c = 1000"
proof
  assume "c = 1000" then show "unat c = 1000" by simp
next
  assume "unat c = 1000"
  then have "unat c = unat (1000 :: 32 word)" by simp
  then show "c = 1000" by (simp only: word_unat_eq_iff)
qed

lemma sampleLoop_props:
  assumes "unat s < 1000" and "lut_sorted (vertexLUT_m gm)"
    and "sampleLoop env m vS vG ind gm s = (path, gm', cnt)"
  shows "unat s < unat cnt \<and> unat cnt \<le> 1000
       \<and> (path = []) = (cnt = 1000)
       \<and> length path = (if cnt = 1000 then 0 else length (shortestPath env (graph_m gm') vS vG))
       \<and> (cnt \<noteq> 1000 \<longrightarrow> map (map_of (vertexLUT_m gm')) (shortestPath env (graph_m gm') vS vG) = map Some path)
       \<and> lut_sorted (vertexLUT_m gm') \<and> lut_extends (vertexLUT_m gm) (vertexLUT_m gm')"
  using assms
proof (induction env m vS vG ind gm s arbitrary: path gm' cnt rule: sampleLoop.induct)
  case (1 env m vStart vGoal ind gm safetyCnt)
  let ?c = "safetyCnt + 1"
  have uc: "unat ?c = Suc (unat safetyCnt)"
    using "1.prems"(1) by (rule unat_succ_word)
  show ?case
  proof (cases "?c = 1000")
    case True
    with "1.prems"(3) have "path = []" "gm' = gm" "cnt = 1000"
      by (auto simp: sampleLoop.simps [of env m vStart vGoal ind gm safetyCnt])
    then show ?thesis
      using "1.prems"(1) by (simp add: lut_extends_refl "1.prems"(2))
  next
    case False
    then have lt: "unat ?c < 1000"
      using uc "1.prems"(1) by (auto simp: word_1000)
    let ?rnd = "randomOrd ind (unat ?c)"
    let ?pRand = "convertToPoint env (lmap_m gm) (reference_m gm) ?rnd"
    show ?thesis
    proof (cases "isAccessible env (lmap_m gm) m ?pRand")
      case acc: False
      with False "1.prems"(3)
      have rec: "sampleLoop env m vStart vGoal ind gm ?c = (path, gm', cnt)"
        by (simp add: sampleLoop.simps [of env m vStart vGoal ind gm safetyCnt] Let_def)
      from "1.IH"(1) [OF refl False refl refl acc lt "1.prems"(2) rec]
      show ?thesis using uc by auto
    next
      case acc: True
      obtain vRand gm1 where f: "findOrAdd env gm ?rnd = (vRand, gm1)"
        by (cases "findOrAdd env gm ?rnd")
      let ?gm2 = "connectToExistingNodes env m vRand gm1"
      let ?vPath = "shortestPath env (graph_m ?gm2) vStart vGoal"
      have s1: "lut_sorted (vertexLUT_m gm1)" and e1: "lut_extends (vertexLUT_m gm) (vertexLUT_m gm1)"
        using findOrAdd_props [OF "1.prems"(2) f] by auto
      have s2: "lut_sorted (vertexLUT_m ?gm2)" and e2: "lut_extends (vertexLUT_m gm1) (vertexLUT_m ?gm2)"
        using connect_props [OF s1] by auto
      show ?thesis
      proof (cases "0 < length ?vPath")
        case found: True
        obtain ps gm3 where c: "convertPath ?gm2 ?vPath = (ps, gm3)"
          by (cases "convertPath ?gm2 ?vPath")
        from False acc f found c "1.prems"(3)
        have res: "path = ps" "gm' = gm3" "cnt = ?c"
          by (auto simp: sampleLoop.simps [of env m vStart vGoal ind gm safetyCnt] Let_def)
        note cp = convertPath_props [OF s2 c]
        have len: "length ps = length ?vPath" using c by (rule convertPath_length)
        have ext: "lut_extends (vertexLUT_m gm) (vertexLUT_m gm3)"
          using e1 e2 cp by (blast intro: lut_extends_trans)
        show ?thesis
          using False found cp len ext uc lt by (auto simp: res)
      next
        case nf: False
        from False acc f nf "1.prems"(3)
        have rec: "sampleLoop env m vStart vGoal ind ?gm2 ?c = (path, gm', cnt)"
          by (auto simp: sampleLoop.simps [of env m vStart vGoal ind gm safetyCnt] Let_def)
        have nf': "\<not> 0 < length (shortestPath env (graph_m ?gm2) vStart vGoal)" using nf .
        from "1.IH"(2) [OF refl False refl refl _ f [symmetric] refl refl refl nf' lt s2 rec]
        have ih: "unat ?c < unat cnt \<and> unat cnt \<le> 1000
           \<and> (path = []) = (cnt = 1000)
           \<and> length path = (if cnt = 1000 then 0 else length (shortestPath env (graph_m gm') vStart vGoal))
           \<and> (cnt \<noteq> 1000 \<longrightarrow> map (map_of (vertexLUT_m gm')) (shortestPath env (graph_m gm') vStart vGoal) = map Some path)
           \<and> lut_sorted (vertexLUT_m gm') \<and> lut_extends (vertexLUT_m ?gm2) (vertexLUT_m gm')"
          using acc by simp
        have ext: "lut_extends (vertexLUT_m gm) (vertexLUT_m gm')"
          using e1 e2 ih by (blast intro: lut_extends_trans)
        show ?thesis using ih ext uc by auto
      qed
    qed
  qed
qed

subsection \<open>findOrAdd\<close>

lemma lut_insert_fresh:
  "list_all (\<lambda>k. k < v) (map fst t) \<Longrightarrow> lut_insert v p t = t @ [(v, p)]"
  by (induction t) auto

lemma findOrAdd_old:
  assumes "existsAsVertex gm p"
  shows "\<exists>v. findOrAdd env gm p = (v, gm) \<and> (v, p) \<in> set (vertexLUT_m gm)"
proof -
  from assms obtain v where v: "lut_lookup (vertexLUT_m gm) p = Some v"
    using lut_lookup_exists by (auto simp: existsAsVertex_def)
  then have "(v, p) \<in> set (vertexLUT_m gm)" by (rule lut_lookup_Some)
  with v assms show ?thesis by (simp add: findOrAdd_def lookup_def)
qed

lemma findOrAdd_new:
  assumes "\<not> existsAsVertex gm p" and "lut_dense gm"
  shows "findOrAdd env gm p =
           (nextVertexId_m gm,
            gm\<lparr>nextVertexId_m := nextVertexId_m gm + 1,
                graph_m := addVertex env (graph_m gm) (nextVertexId_m gm),
                vertexLUT_m := vertexLUT_m gm @ [(nextVertexId_m gm, p)]\<rparr>)"
proof -
  have "list_all (\<lambda>k. k < nextVertexId_m gm) (map fst (vertexLUT_m gm))"
    using assms(2) by (simp add: lut_dense_def list_all_iff)
  then have "lut_insert (nextVertexId_m gm) p (vertexLUT_m gm)
               = vertexLUT_m gm @ [(nextVertexId_m gm, p)]"
    by (rule lut_insert_fresh)
  with assms(1) show ?thesis
    by (simp add: findOrAdd_def nextVertexId_def)
qed

lemma findOrAdd_dense:
  assumes "lut_dense gm" and "findOrAdd env gm p = (v, gm1)"
  shows "lut_dense gm1 \<and> map_of (vertexLUT_m gm1) v = Some p
         \<and> nextVertexId_m gm \<le> nextVertexId_m gm1
         \<and> (\<forall>k q. map_of (vertexLUT_m gm) k = Some q \<longrightarrow> map_of (vertexLUT_m gm1) k = Some q)
         \<and> (\<not> existsAsVertex gm p \<longrightarrow> v = nextVertexId_m gm \<and> nextVertexId_m gm1 = Suc v)"
proof (cases "existsAsVertex gm p")
  case True
  from findOrAdd_old [OF True, of env] assms(2)
  have eq: "gm1 = gm" and mem: "(v, p) \<in> set (vertexLUT_m gm)" by auto
  have "distinct (map fst (vertexLUT_m gm))"
    using assms(1) by (simp add: lut_dense_def)
  then have "map_of (vertexLUT_m gm) v = Some p"
    using mem by simp
  with True assms(1) eq show ?thesis by simp
next
  case False
  have fresh: "nextVertexId_m gm \<notin> fst ` set (vertexLUT_m gm)"
  proof -
    have "set (map fst (vertexLUT_m gm)) = {0..<nextVertexId_m gm}"
      using assms(1) by (simp add: lut_dense_def)
    then show ?thesis by auto
  qed
  have notin: "p \<notin> snd ` set (vertexLUT_m gm)"
    using False by (simp add: existsAsVertex_def lut_exists_iff)
  from findOrAdd_new [OF False assms(1), of env] assms(2)
  have v: "v = nextVertexId_m gm"
    and gm1: "gm1 = gm\<lparr>nextVertexId_m := nextVertexId_m gm + 1,
                graph_m := addVertex env (graph_m gm) (nextVertexId_m gm),
                vertexLUT_m := vertexLUT_m gm @ [(nextVertexId_m gm, p)]\<rparr>"
    by auto
  have "lut_dense gm1"
    using assms(1) notin by (simp add: gm1 lut_dense_def)
  moreover have "map_of (vertexLUT_m gm1) v = Some p"
  proof -
    have "map_of (vertexLUT_m gm) (nextVertexId_m gm) = None"
      using fresh by (simp add: map_of_eq_None_iff)
    then show ?thesis by (simp add: gm1 v map_add_def)
  qed
  moreover have "\<forall>k q. map_of (vertexLUT_m gm) k = Some q \<longrightarrow> map_of (vertexLUT_m gm1) k = Some q"
    by (simp add: gm1 map_add_def)
  ultimately show ?thesis using False by (simp add: v gm1)
qed

lemma findOrAdd_seq_props:
  assumes "lut_dense gm" and "findOrAdd_seq env gm ps = (rs, gm')"
  shows "lut_dense gm'
       \<and> nextVertexId_m gm \<le> nextVertexId_m gm'
       \<and> sorted_wrt (<) (map fst (filter snd rs))
       \<and> list_all (\<lambda>v. nextVertexId_m gm \<le> v \<and> v < nextVertexId_m gm') (map fst (filter snd rs))
       \<and> map (\<lambda>r. map_of (vertexLUT_m gm') (fst r)) rs = map Some ps
       \<and> (\<forall>k q. map_of (vertexLUT_m gm) k = Some q \<longrightarrow> map_of (vertexLUT_m gm') k = Some q)"
  using assms
proof (induction ps arbitrary: gm rs gm')
  case Nil
  then show ?case by simp
next
  case (Cons p ps)
  obtain v gm1 where f: "findOrAdd env gm p = (v, gm1)"
    by (cases "findOrAdd env gm p")
  obtain rs1 gm2 where s: "findOrAdd_seq env gm1 ps = (rs1, gm2)"
    by (cases "findOrAdd_seq env gm1 ps")
  from Cons.prems(2) f s have rs: "rs = (v, \<not> existsAsVertex gm p) # rs1" and g: "gm' = gm2"
    by (auto simp: Let_def)
  note step = findOrAdd_dense [OF Cons.prems(1) f]
  from step have d1: "lut_dense gm1" by simp
  note ih = Cons.IH [OF d1 s]
  have keep: "map_of (vertexLUT_m gm2) v = Some p"
    using step ih by blast
  have sorted: "sorted_wrt (<) (map fst (filter snd rs))"
  proof (cases "existsAsVertex gm p")
    case True
    then show ?thesis using ih by (simp add: rs)
  next
    case False
    with step have "v = nextVertexId_m gm" "nextVertexId_m gm1 = Suc v" by auto
    moreover have "list_all (\<lambda>w. nextVertexId_m gm1 \<le> w \<and> w < nextVertexId_m gm2)
                     (map fst (filter snd rs1))"
      using ih by simp
    ultimately show ?thesis using ih False by (auto simp: rs list_all_iff)
  qed
  have range: "list_all (\<lambda>w. nextVertexId_m gm \<le> w \<and> w < nextVertexId_m gm')
                 (map fst (filter snd rs))"
  proof -
    have a: "list_all (\<lambda>w. nextVertexId_m gm \<le> w \<and> w < nextVertexId_m gm2)
               (map fst (filter snd rs1))"
      using ih step by (auto simp: list_all_iff)
    show ?thesis
    proof (cases "existsAsVertex gm p")
      case True
      then show ?thesis using a by (simp add: rs g)
    next
      case False
      with step have "v = nextVertexId_m gm" "nextVertexId_m gm1 = Suc v" by auto
      then show ?thesis using a ih False by (simp add: rs g)
    qed
  qed
  show ?case
    using ih step keep sorted range by (simp add: rs g)
qed

lemma GlobalMap_new_dense: "lut_dense (GlobalMap_new env a b c)"
  by (simp add: lut_dense_def GlobalMap_new_def)

text \<open>
  Claim C8. After any sequence of calls of \<open>findOrAdd\<close> on a fresh roadmap, no two vertices
  share an ordinate; the keys of the table are exactly the identifiers issued so far, each
  once; the identifiers allocated by the sequence are strictly increasing in the order of
  the calls (so none is issued twice); every call returned a vertex whose ordinate is its
  argument; and a further call returns the existing vertex, leaving the roadmap as it is,
  when some vertex has the ordinate, and otherwise takes the next identifier and adds the
  pair to the graph and to the table.
\<close>

theorem findOrAdd_sequence:
  assumes "findOrAdd_seq env (GlobalMap_new env mapSize mapRes robotDiameter) ps = (rs, gm)"
  shows "distinct (map snd (vertexLUT_m gm))
       \<and> map fst (vertexLUT_m gm) = [0..<nextVertexId_m gm]
       \<and> sorted_wrt (<) (map fst (filter snd rs))
       \<and> map (\<lambda>r. map_of (vertexLUT_m gm) (fst r)) rs = map Some ps
       \<and> (\<forall>p. if p \<in> snd ` set (vertexLUT_m gm)
               then \<exists>v. findOrAdd env gm p = (v, gm) \<and> (v, p) \<in> set (vertexLUT_m gm)
               else findOrAdd env gm p =
                      (nextVertexId_m gm,
                       gm\<lparr>nextVertexId_m := nextVertexId_m gm + 1,
                           graph_m := addVertex env (graph_m gm) (nextVertexId_m gm),
                           vertexLUT_m := vertexLUT_m gm @ [(nextVertexId_m gm, p)]\<rparr>))"
proof -
  note props = findOrAdd_seq_props [OF GlobalMap_new_dense assms]
  then have d: "lut_dense gm" by simp
  have step: "\<And>p. if p \<in> snd ` set (vertexLUT_m gm)
               then \<exists>v. findOrAdd env gm p = (v, gm) \<and> (v, p) \<in> set (vertexLUT_m gm)
               else findOrAdd env gm p =
                      (nextVertexId_m gm,
                       gm\<lparr>nextVertexId_m := nextVertexId_m gm + 1,
                           graph_m := addVertex env (graph_m gm) (nextVertexId_m gm),
                           vertexLUT_m := vertexLUT_m gm @ [(nextVertexId_m gm, p)]\<rparr>)"
    using findOrAdd_old [of gm _ env] findOrAdd_new [OF _ d, of _ env]
    by (simp add: existsAsVertex_def lut_exists_iff)
  show ?thesis using props d step by (simp add: lut_dense_def)
qed

subsection \<open>setReference\<close>

lemma setReference_fields:
  "graph_m (setReference r gm) = graph_m gm"
  "lmap_m (setReference r gm) = lmap_m gm"
  "vertexLUT_m (setReference r gm) = vertexLUT_m gm"
  "nextVertexId_m (setReference r gm) = nextVertexId_m gm"
  "mapSize_m (setReference r gm) = mapSize_m gm"
  "robotDiameter_m (setReference r gm) = robotDiameter_m gm"
  "reference_m (setReference r gm) = r"
  by (simp_all add: setReference_def)

text \<open>
  Claim C10. \<open>setReference\<close> changes the stored reference and nothing else: the graph, the
  table, the next identifier and the map parameters are as before. The steps of the next
  \<open>build\<close> that turn stored ordinates into pixels therefore read the old ordinates
  against the new reference: so does the conversion of a path, and so does
  \<open>connectToExistingNodes\<close>.
\<close>

theorem setReference_frame:
  "graph_m (setReference r gm) = graph_m gm
   \<and> vertexLUT_m (setReference r gm) = vertexLUT_m gm
   \<and> nextVertexId_m (setReference r gm) = nextVertexId_m gm
   \<and> lmap_m (setReference r gm) = lmap_m gm
   \<and> mapSize_m (setReference r gm) = mapSize_m gm
   \<and> robotDiameter_m (setReference r gm) = robotDiameter_m gm
   \<and> reference_m (setReference r gm) = r
   \<and> convertPathPoints env (setReference r gm) path = map (convertToPoint env (lmap_m gm) r) path
   \<and> connectToExistingNodes env m node (setReference r gm) =
       (let (ordNode, t) = lut_index (vertexLUT_m gm) node
        in (setReference r gm)
             \<lparr>graph_m := connect_scan env (lmap_m gm) m r node
                            (convertToPoint env (lmap_m gm) r ordNode) ordNode t (graph_m gm),
              vertexLUT_m := t\<rparr>)"
  by (simp add: setReference_fields convertPathPoints_def connectToExistingNodes_def Let_def
        split: prod.splits)

subsection \<open>build\<close>

lemma sampleLoop_count:
  assumes "unat s < 1000"
    and "sampleLoop env m vS vG ind gm s = (path, gm', cnt)"
  shows "unat s < unat cnt \<and> unat cnt \<le> 1000
       \<and> (path = []) = (cnt = 1000)
       \<and> length path = (if cnt = 1000 then 0 else length (shortestPath env (graph_m gm') vS vG))"
  using assms
proof (induction env m vS vG ind gm s arbitrary: path gm' cnt rule: sampleLoop.induct)
  case (1 env m vStart vGoal ind gm safetyCnt)
  let ?c = "safetyCnt + 1"
  have uc: "unat ?c = Suc (unat safetyCnt)"
    using "1.prems"(1) by (rule unat_succ_word)
  show ?case
  proof (cases "?c = 1000")
    case True
    with "1.prems"(2) have "path = []" "gm' = gm" "cnt = 1000"
      by (auto simp: sampleLoop.simps [of env m vStart vGoal ind gm safetyCnt])
    then show ?thesis
      using "1.prems"(1) by simp
  next
    case False
    then have lt: "unat ?c < 1000"
      using uc "1.prems"(1) by (auto simp: word_1000)
    let ?rnd = "randomOrd ind (unat ?c)"
    let ?pRand = "convertToPoint env (lmap_m gm) (reference_m gm) ?rnd"
    show ?thesis
    proof (cases "isAccessible env (lmap_m gm) m ?pRand")
      case acc: False
      with False "1.prems"(2)
      have rec: "sampleLoop env m vStart vGoal ind gm ?c = (path, gm', cnt)"
        by (simp add: sampleLoop.simps [of env m vStart vGoal ind gm safetyCnt] Let_def)
      from "1.IH"(1) [OF refl False refl refl acc lt rec]
      show ?thesis using uc by auto
    next
      case acc: True
      obtain vRand gm1 where f: "findOrAdd env gm ?rnd = (vRand, gm1)"
        by (cases "findOrAdd env gm ?rnd")
      let ?gm2 = "connectToExistingNodes env m vRand gm1"
      let ?vPath = "shortestPath env (graph_m ?gm2) vStart vGoal"
      show ?thesis
      proof (cases "0 < length ?vPath")
        case found: True
        obtain ps gm3 where c: "convertPath ?gm2 ?vPath = (ps, gm3)"
          by (cases "convertPath ?gm2 ?vPath")
        from False acc f found c "1.prems"(2)
        have res: "path = ps" "gm' = gm3" "cnt = ?c"
          by (auto simp: sampleLoop.simps [of env m vStart vGoal ind gm safetyCnt] Let_def)
        have len: "length ps = length ?vPath" using c by (rule convertPath_length)
        have gr: "graph_m gm3 = graph_m ?gm2" using c by (rule convertPath_graph)
        show ?thesis
          using False found len gr uc lt by (auto simp: res)
      next
        case nf: False
        from False acc f nf "1.prems"(2)
        have rec: "sampleLoop env m vStart vGoal ind ?gm2 ?c = (path, gm', cnt)"
          by (auto simp: sampleLoop.simps [of env m vStart vGoal ind gm safetyCnt] Let_def)
        have nf': "\<not> 0 < length (shortestPath env (graph_m ?gm2) vStart vGoal)" using nf .
        from "1.IH"(2) [OF refl False refl refl _ f [symmetric] refl refl refl nf' lt rec]
        show ?thesis using acc uc by auto
      qed
    qed
  qed
qed

lemma sampleLoop_exhausts:
  assumes "\<And>p. \<not> isAccessible env (lmap_m gm) m p" and "unat s < 1000"
  shows "sampleLoop env m vS vG ind gm s = ([], gm, 1000)"
  using assms
proof (induction env m vS vG ind gm s rule: sampleLoop.induct)
  case (1 env m vStart vGoal ind gm safetyCnt)
  let ?c = "safetyCnt + 1"
  have uc: "unat ?c = Suc (unat safetyCnt)"
    using "1.prems"(2) by (rule unat_succ_word)
  show ?case
  proof (cases "?c = 1000")
    case True
    then show ?thesis
      by (subst sampleLoop.simps) (simp add: Let_def)
  next
    case False
    then have lt: "unat ?c < 1000"
      using uc "1.prems"(2) by (auto simp: word_1000)
    have acc: "\<not> isAccessible env (lmap_m gm) m
                 (convertToPoint env (lmap_m gm) (reference_m gm) (randomOrd ind (unat ?c)))"
      by (rule "1.prems"(1))
    have "sampleLoop env m vStart vGoal ind gm safetyCnt = sampleLoop env m vStart vGoal ind gm ?c"
      using False acc by (simp add: sampleLoop.simps [of env m vStart vGoal ind gm safetyCnt] Let_def)
    also have "\<dots> = ([], gm, 1000)"
      using "1.IH"(1) [OF refl False refl refl acc "1.prems"(1) lt] .
    finally show ?thesis .
  qed
qed

text \<open>
  Claim C4. \<open>build\<close> enters its sampling loop with \<open>safetyCnt = 0\<close>. The loop returns for
  every input (it is a total function, by the termination proof of \<open>sampleLoop\<close>), the
  counter it stops with is at least 1 and at most 1000, so that it has run at most 1000
  iterations, and it leaves \<open>path\<close> empty exactly when the counter has reached 1000, that is
  when no iteration found a vertex path; otherwise the path has as many ordinates as the
  vertex path found.
\<close>

theorem sampleLoop_within_MaxSamples:
  "\<exists>path gm' cnt. sampleLoop env m vStart vGoal ind gm 0 = (path, gm', cnt)
      \<and> 0 < unat cnt \<and> unat cnt \<le> 1000
      \<and> (path = []) = (cnt = 1000)
      \<and> length path = (if cnt = 1000 then 0
                        else length (shortestPath env (graph_m gm') vStart vGoal))"
proof -
  obtain path gm' cnt where r: "sampleLoop env m vStart vGoal ind gm 0 = (path, gm', cnt)"
    by (cases "sampleLoop env m vStart vGoal ind gm 0")
  have "unat (0 :: 32 word) < 1000" by simp
  from sampleLoop_count [OF this r] r show ?thesis by auto
qed

lemma build_search_props:
  assumes "lut_sorted (vertexLUT_m gm)" and "build_search env gm m vS vG ind = (path, gm', m')"
  shows "(path \<noteq> [] \<longrightarrow>
            map (map_of (vertexLUT_m gm')) (shortestPath env (graph_m gm') vS vG) = map Some path)
       \<and> lut_extends (vertexLUT_m gm) (vertexLUT_m gm') \<and> lut_sorted (vertexLUT_m gm') \<and> m' = m"
proof (cases "0 < length (shortestPath env (graph_m gm) vS vG)")
  case True
  obtain ps gm1 where c: "convertPath gm (shortestPath env (graph_m gm) vS vG) = (ps, gm1)"
    by (cases "convertPath gm (shortestPath env (graph_m gm) vS vG)")
  from True c assms(2) have res: "path = ps" "gm' = gm1" "m' = m"
    by (auto simp: build_search_def Let_def)
  show ?thesis
    using convertPath_props [OF assms(1) c] by (simp add: res)
next
  case False
  let ?gm1 = "connectToExistingNodes env m vS gm"
  let ?gm2 = "connectToExistingNodes env m vG ?gm1"
  have s1: "lut_sorted (vertexLUT_m ?gm1)" and e1: "lut_extends (vertexLUT_m gm) (vertexLUT_m ?gm1)"
    using connect_props [OF assms(1)] by auto
  have s2: "lut_sorted (vertexLUT_m ?gm2)" and e2: "lut_extends (vertexLUT_m ?gm1) (vertexLUT_m ?gm2)"
    using connect_props [OF s1] by auto
  have e12: "lut_extends (vertexLUT_m gm) (vertexLUT_m ?gm2)"
    using e1 e2 by (rule lut_extends_trans)
  show ?thesis
  proof (cases "0 < length (shortestPath env (graph_m ?gm2) vS vG)")
    case found: True
    obtain ps gm3 where c: "convertPath ?gm2 (shortestPath env (graph_m ?gm2) vS vG) = (ps, gm3)"
      by (cases "convertPath ?gm2 (shortestPath env (graph_m ?gm2) vS vG)")
    from False found c assms(2) have res: "path = ps" "gm' = gm3" "m' = m"
      by (auto simp: build_search_def Let_def)
    note cp = convertPath_props [OF s2 c]
    have "lut_extends (vertexLUT_m gm) (vertexLUT_m gm3)"
      using e12 cp by (blast intro: lut_extends_trans)
    then show ?thesis using cp by (simp add: res)
  next
    case nf: False
    obtain ps gm3 cnt where l: "sampleLoop env m vS vG ind ?gm2 0 = (ps, gm3, cnt)"
      by (cases "sampleLoop env m vS vG ind ?gm2 0")
    from False nf l assms(2) have res: "path = ps" "gm' = gm3" "m' = m"
      by (auto simp: build_search_def Let_def)
    have z: "unat (0 :: 32 word) < 1000" by simp
    note sp = sampleLoop_props [OF z s2 l]
    have "lut_extends (vertexLUT_m gm) (vertexLUT_m gm3)"
      using e12 sp by (blast intro: lut_extends_trans)
    then show ?thesis using sp by (auto simp: res)
  qed
qed

text \<open>
  Claim C2, as amended. When start and goal are not both vertices already and the table
  is well formed, every non-empty path that \<open>build\<close> returns is the translation, through
  the table, of the vertex path that \<open>shortestPath\<close> gives from the vertex of start to the
  vertex of goal on the final graph: it has exactly as many ordinates, no pass of
  \<open>optimise_path\<close> is applied, and it begins at start and ends at goal whenever the vertex
  path begins and ends at those two vertices.
\<close>

theorem build_path_is_translation:
  assumes "lut_wf gm"
    and "\<not> (existsAsVertex gm start \<and> existsAsVertex gm goal)"
    and "build env gm m0 start goal ind = (path, gm', m')"
    and "path \<noteq> []"
  shows "(let vStart = fst (findOrAdd env gm start);
              vGoal = fst (findOrAdd env (snd (findOrAdd env gm start)) goal);
              vPath = shortestPath env (graph_m gm') vStart vGoal
          in map (map_of (vertexLUT_m gm')) vPath = map Some path
             \<and> length path = length vPath
             \<and> map_of (vertexLUT_m gm') vStart = Some start
             \<and> map_of (vertexLUT_m gm') vGoal = Some goal
             \<and> (hd vPath = vStart \<longrightarrow> hd path = start)
             \<and> (last vPath = vGoal \<longrightarrow> last path = goal))"
proof -
  let ?m = "expandConfigSpace env (lmap_m gm) m0 (robotDiameter_m gm)"
  obtain vStart gm1 where f1: "findOrAdd env gm start = (vStart, gm1)"
    by (cases "findOrAdd env gm start")
  obtain vGoal gm2 where f2: "findOrAdd env gm1 goal = (vGoal, gm2)"
    by (cases "findOrAdd env gm1 goal")
  let ?vPath = "shortestPath env (graph_m gm') vStart vGoal"
  have bs: "build_search env gm2 ?m vStart vGoal ind = (path, gm', m')"
    using assms(2,3,4) f1 f2 by (auto simp: build_def Let_def split: if_splits)
  have w1: "lut_wf gm1" and a1: "map_of (vertexLUT_m gm1) vStart = Some start"
    using findOrAdd_wf [OF assms(1) f1] by auto
  have w2: "lut_wf gm2" and a2: "map_of (vertexLUT_m gm2) vGoal = Some goal"
    using findOrAdd_wf [OF w1 f2] by auto
  have s1: "lut_sorted (vertexLUT_m gm1)" using w1 by (simp add: lut_wf_def)
  have s2: "lut_sorted (vertexLUT_m gm2)" using w2 by (simp add: lut_wf_def)
  have e12: "lut_extends (vertexLUT_m gm1) (vertexLUT_m gm2)"
    using findOrAdd_props [OF s1 f2] by simp
  note p = build_search_props [OF s2 bs]
  have tr: "map (map_of (vertexLUT_m gm')) ?vPath = map Some path"
    using p assms(4) by simp
  have len: "length path = length ?vPath"
    using arg_cong [OF tr, of length] by simp
  have st: "map_of (vertexLUT_m gm') vStart = Some start"
    using a1 e12 p by (auto simp: lut_extends_def)
  have go: "map_of (vertexLUT_m gm') vGoal = Some goal"
    using a2 p by (auto simp: lut_extends_def)
  have ne: "?vPath \<noteq> []" using len assms(4) by auto
  have h: "hd path = start" if "hd ?vPath = vStart"
  proof -
    have "map_of (vertexLUT_m gm') (hd ?vPath) = Some (hd path)"
      using tr ne assms(4) by (cases ?vPath; cases path) auto
    with that st show ?thesis by simp
  qed
  have l: "last path = goal" if "last ?vPath = vGoal"
  proof -
    have "last (map (map_of (vertexLUT_m gm')) ?vPath) = last (map Some path)"
      using tr by simp
    then have "map_of (vertexLUT_m gm') (last ?vPath) = Some (last path)"
      using ne assms(4) by (simp add: last_map)
    with that go show ?thesis by simp
  qed
  show ?thesis
    using tr len st go h l by (simp add: f1 f2 Let_def)
qed

subsection \<open>The planner loop\<close>

lemma retryLoop_from_one:
  "retryLoop env ro goal inds (p1, gm1, m1, 1) =
     (if p1 \<noteq> [] then (p1, gm1, m1, 1)
      else
        (let (p2, gm2, m2) = build env gm1 m1 ro goal (inds 2) in
         if p2 \<noteq> [] then (p2, gm2, m2, 2)
         else (let (p3, gm3, m3) = build env gm2 m2 ro goal (inds 3) in (p3, gm3, m3, 3))))"
proof (cases "p1 = []")
  case False
  then show ?thesis by (simp add: retryLoop.simps)
next
  case True
  obtain p2 gm2 m2 where b2: "build env gm1 m1 ro goal (inds 2) = (p2, gm2, m2)"
    by (cases "build env gm1 m1 ro goal (inds 2)")
  have first: "retryLoop env ro goal inds (p1, gm1, m1, 1)
                 = retryLoop env ro goal inds (p2, gm2, m2, 2)"
    using True b2 by (subst retryLoop.simps) simp
  show ?thesis
  proof (cases "p2 = []")
    case False
    then show ?thesis using True b2 first by (simp add: retryLoop.simps)
  next
    case p2: True
    obtain p3 gm3 m3 where b3: "build env gm2 m2 ro goal (inds 3) = (p3, gm3, m3)"
      by (cases "build env gm2 m2 ro goal (inds 3)")
    have "retryLoop env ro goal inds (p2, gm2, m2, 2) = (p3, gm3, m3, 3)"
      using p2 b3 by (subst retryLoop.simps) simp
    then show ?thesis using True p2 b2 b3 first by simp
  qed
qed

lemma buildWithRetries_unfold:
  "buildWithRetries env inds gm m ro goal =
     (let (p1, gm1, m1) = build env gm m ro goal (inds 1) in
      if p1 \<noteq> [] then (p1, gm1, m1, 1)
      else
        (let (p2, gm2, m2) = build env gm1 m1 ro goal (inds 2) in
         if p2 \<noteq> [] then (p2, gm2, m2, 2)
         else (let (p3, gm3, m3) = build env gm2 m2 ro goal (inds 3) in (p3, gm3, m3, 3))))"
  by (simp add: buildWithRetries_def retryLoop_from_one split: prod.splits)

lemma cycleOutput_eq:
  "cycleOutput env inds st =
     (if mat_empty (cycleMap st) then []
      else
        (let (path, gm, m, cnt) = cycleBuild env inds st
         in Overlay (fst (showOverlay env gm (cvtColor env (cycleMap st)) path))
            # (if path = [] then [] else [PoseArray (map (waypoint (cyclePose st)) path)])))"
proof -
  let ?st1 = "consumeWorld (st\<lparr>GoalRecieved := False\<rparr>)"
  have pub: "published ?st1 = published st"
    by (simp add: consumeWorld_def Let_def)
  show ?thesis
    by (simp add: cycleOutput_def prmCycle_def cycleMap_def cycleBuild_def cyclePose_def Let_def
          pub setReference_fields split: prod.splits)
qed

lemma cyclePose_eq:
  "cyclePose st = (if poseDeq st = [] then robotPos st else hd (poseDeq st))"
  by (simp add: cyclePose_def consumeWorld_def Let_def)

text \<open>
  Claim C5. The first call of \<open>build\<close> and the retry loop amount to at most three calls:
  the second is made only when the first returned the empty path, the third only when the
  second did too, and after the third the loop stops whatever it returned. The attempt
  counter ends at 1, 2 or 3. A pass of the planner loop publishes nothing but overlays
  (no waypoints) exactly when its map is empty or the path it ends with is empty.
\<close>

theorem buildWithRetries_at_most_three:
  "buildWithRetries env inds gm m ro goal =
     (let (p1, gm1, m1) = build env gm m ro goal (inds 1) in
      if p1 \<noteq> [] then (p1, gm1, m1, 1)
      else
        (let (p2, gm2, m2) = build env gm1 m1 ro goal (inds 2) in
         if p2 \<noteq> [] then (p2, gm2, m2, 2)
         else (let (p3, gm3, m3) = build env gm2 m2 ro goal (inds 3) in (p3, gm3, m3, 3))))
   \<and> snd (snd (snd (buildWithRetries env inds gm m ro goal))) \<in> {1, 2, 3}
   \<and> list_all isOverlay (cycleOutput env inds st)
       = (mat_empty (cycleMap st) \<or> fst (cycleBuild env inds st) = [])"
proof -
  have a: "snd (snd (snd (buildWithRetries env inds gm m ro goal))) \<in> {1, 2, 3}"
    by (simp add: buildWithRetries_unfold Let_def split: prod.splits)
  have b: "list_all isOverlay (cycleOutput env inds st)
       = (mat_empty (cycleMap st) \<or> fst (cycleBuild env inds st) = [])"
    by (simp add: cycleOutput_eq Let_def split: prod.splits)
  show ?thesis using a b buildWithRetries_unfold [of env inds gm m ro goal] by simp
qed

text \<open>
  Claim C6, as amended. A pass of the planner loop whose map is not empty publishes
  exactly one overlay, whether or not the path is empty, followed by one waypoint message
  if and only if the path is not empty; a pass whose map is empty publishes nothing.
\<close>

theorem prmCycle_overlay_and_waypoints:
  "cycleOutput env inds st =
     (if mat_empty (cycleMap st) then []
      else
        (let (path, gm, m, cnt) = cycleBuild env inds st
         in Overlay (fst (showOverlay env gm (cvtColor env (cycleMap st)) path))
            # (if path = [] then [] else [PoseArray (map (waypoint (cyclePose st)) path)])))
   \<and> length (filter isOverlay (cycleOutput env inds st)) = (if mat_empty (cycleMap st) then 0 else 1)
   \<and> length (filter (\<lambda>msg. \<not> isOverlay msg) (cycleOutput env inds st))
       = (if mat_empty (cycleMap st) \<or> fst (cycleBuild env inds st) = [] then 0 else 1)"
  by (simp add: cycleOutput_eq Let_def split: prod.splits)

text \<open>
  Claim C7. A waypoint message published by a pass of the planner loop holds one pose per
  ordinate of the path, in the order of the path; the pose has the \<open>x\<close> and \<open>y\<close> of the
  ordinate and the \<open>z\<close> of the robot pose the pass works with, which is the pose it took
  from the buffer, or the one of the pass before when the buffer had none.
\<close>

theorem waypoints_follow_path:
  assumes "PoseArray ps \<in> set (cycleOutput env inds st)"
  shows "ps = map (\<lambda>w. \<lparr>pos_x = ord_x w, pos_y = ord_y w, pos_z = pos_z (cyclePose st),
                         orientation = (0, 0, 0, 0)\<rparr>) (fst (cycleBuild env inds st))
       \<and> cyclePose st = (if poseDeq st = [] then robotPos st else hd (poseDeq st))"
proof -
  obtain path gm m cnt where cb: "cycleBuild env inds st = (path, gm, m, cnt)"
    by (cases "cycleBuild env inds st")
  from assms cb have "ps = map (waypoint (cyclePose st)) path"
    by (auto simp: cycleOutput_eq split: if_splits)
  then show ?thesis
    by (simp add: cb cyclePose_eq waypoint_def)
qed

section \<open>The planner at concrete inputs\<close>

subsection \<open>Evaluation of the collaborators\<close>

lemma gm0_new: "GlobalMap_new spec_env 6 (1 / 2) (1 / 5) = gm0"
  by (simp add: GlobalMap_new_def spec_env_def g0_def lm0_def)

lemma env_sel:
  "addVertex spec_env = Graph_addVertex"
  "addEdge spec_env = Graph_addEdge"
  "shortestPath spec_env = Graph_shortestPath"
  "container spec_env = g_nodes"
  "convertToPoint spec_env = LocalMap_convertToPoint"
  "isAccessible spec_env = LocalMap_isAccessible"
  "canConnect spec_env = LocalMap_canConnect"
  "expandConfigSpace spec_env = LocalMap_expandConfigSpace"
  "overlayPRM spec_env = (\<lambda>lm img prm. img\<lparr>img_prm := img_prm img @ prm\<rparr>)"
  "overlayPath spec_env = (\<lambda>lm img pts. img\<lparr>img_path := pts\<rparr>)"
  "cvtColor spec_env = (\<lambda>m. \<lparr>img_base = m, img_prm = [], img_path = []\<rparr>)"
  by (simp_all add: spec_env_def)

lemma distance_row: "distance (pt a c) (pt b c) = \<bar>b - a\<bar>"
  by (simp add: distance_def)

lemma distance_col: "distance (pt c a) (pt c b) = \<bar>b - a\<bar>"
  by (simp add: distance_def)

lemma pix:
  "LocalMap_convertToPoint lm0 (pt 0 0) (pt (- 2) 0) = (2, 6)"
  "LocalMap_convertToPoint lm0 (pt 0 0) (pt (- 1) 0) = (4, 6)"
  "LocalMap_convertToPoint lm0 (pt 0 0) (pt (- (9 / 10)) 0) = (4, 6)"
  "LocalMap_convertToPoint lm0 (pt 0 0) (pt 0 0) = (6, 6)"
  "LocalMap_convertToPoint lm0 (pt 0 0) (pt 1 0) = (8, 6)"
  "LocalMap_convertToPoint lm0 (pt 0 0) (pt 2 0) = (10, 6)"
  "LocalMap_convertToPoint lm0 (pt 0 0) (pt (- 1) 1) = (4, 4)"
  by code_simp+

lemma free_free:
  "LocalMap_isAccessible lm0 (cspace m_free) (2, 6)"
  "LocalMap_isAccessible lm0 (cspace m_free) (4, 6)"
  "LocalMap_isAccessible lm0 (cspace m_free) (6, 6)"
  "LocalMap_isAccessible lm0 (cspace m_free) (8, 6)"
  "LocalMap_isAccessible lm0 (cspace m_free) (10, 6)"
  by code_simp+

lemma los_free:
  "LocalMap_canConnect lm0 (cspace m_free) (2, 6) (10, 6)"
  "LocalMap_canConnect lm0 (cspace m_free) (10, 6) (2, 6)"
  "LocalMap_canConnect lm0 (cspace m_free) (6, 6) (2, 6)"
  "LocalMap_canConnect lm0 (cspace m_free) (6, 6) (10, 6)"
  "LocalMap_canConnect lm0 (cspace m_free) (2, 6) (6, 6)"
  "LocalMap_canConnect lm0 (cspace m_free) (2, 6) (4, 6)"
  "LocalMap_canConnect lm0 (cspace m_free) (10, 6) (4, 6)"
  "LocalMap_canConnect lm0 (cspace m_free) (4, 6) (2, 6)"
  "LocalMap_canConnect lm0 (cspace m_free) (4, 6) (10, 6)"
  "LocalMap_canConnect lm0 (cspace m_free) (4, 6) (4, 6)"
  "LocalMap_canConnect lm0 (cspace m_free) (4, 6) (6, 6)"
  "LocalMap_canConnect lm0 (cspace m_free) (6, 6) (4, 6)"
  "LocalMap_canConnect lm0 (cspace m_free) (4, 6) (8, 6)"
  "LocalMap_canConnect lm0 (cspace m_free) (8, 6) (4, 6)"
  "LocalMap_canConnect lm0 (cspace m_free) (6, 6) (8, 6)"
  "LocalMap_canConnect lm0 (cspace m_free) (8, 6) (6, 6)"
  by code_simp+

lemma geo_goal:
  "LocalMap_isAccessible lm0 (cspace m_goal) (6, 6)"
  "\<not> LocalMap_isAccessible lm0 (cspace m_goal) (8, 6)"
  "\<not> LocalMap_isAccessible lm0 (cspace (cspace m_goal)) (6, 6)"
  "\<not> LocalMap_isAccessible lm0 (cspace (cspace m_goal)) (8, 6)"
  "\<not> LocalMap_isAccessible lm0 (cspace (cspace (cspace m_goal))) (6, 6)"
  "\<not> LocalMap_isAccessible lm0 (cspace (cspace (cspace m_goal))) (8, 6)"
  by code_simp+

lemma geo_wall:
  "LocalMap_isAccessible lm0 (cspace m_wall) (4, 4)"
  "LocalMap_isAccessible lm0 (cspace m_wall) (8, 6)"
  "LocalMap_canConnect lm0 (cspace m_wall) (4, 4) (4, 6)"
  "\<not> LocalMap_canConnect lm0 (cspace m_wall) (4, 4) (8, 6)"
  "\<not> LocalMap_canConnect lm0 (cspace m_wall) (8, 6) (4, 6)"
  "\<not> LocalMap_canConnect lm0 (cspace m_wall) (8, 6) (4, 4)"
  "\<not> LocalMap_canConnect lm0 (cspace m_wall) (4, 6) (8, 6)"
  by code_simp+

lemma empties: "mat_empty m_none" "\<not> mat_empty m_free" "\<not> mat_empty m_goal"
  by (simp_all add: mat_empty_def m_none_def m_free_def m_goal_def)

lemmas graph_eval = g0_def Graph_new_def Graph_addVertex_def Graph_addEdge_def
  Graph_neighbours_def Graph_shortestPath_def label_before_def MaxGraphDensity_def
  MaxDistance_def

lemmas build_eval = build_def build_search_def existsAsVertex_def lookup_def findOrAdd_def
  nextVertexId_def connectToExistingNodes_def lut_index_def convertPath_def Let_def
  randomOrd_def cround_def

lemmas eval = build_eval env_sel graph_eval pix free_free los_free geo_goal geo_wall
  distance_row distance_col

lemmas cycle_eval = prmCycle_def consumeWorld_def sim0_def pose0_def setReference_def
  buildWithRetries_def showOverlay_def constructPRM_def convertPathPoints_def waypoint_def
  empties gm0_new

subsection \<open>Calls of build\<close>

lemma run_mid_eq:
  "run_mid =
     ([pt (- 2) 0, pt 0 0, pt 2 0],
      gm0\<lparr>graph_m := g0\<lparr>g_nodes := [(0, [(2, 2)]), (1, [(2, 2)]), (2, [(0, 2), (1, 2)])]\<rparr>,
          vertexLUT_m := [(0, pt (- 2) 0), (1, pt 2 0), (2, pt 0 0)],
          nextVertexId_m := 3\<rparr>,
      cspace m_free)"
  unfolding run_mid_def gm0_new
  apply (simp add: eval ind_mid_def)
  apply (subst sampleLoop.simps)
  apply (simp add: eval ind_mid_def)
  done

lemma run_near_eq:
  "run_near =
     ([pt (- 2) 0, pt 0 0, pt 2 0],
      gm0\<lparr>graph_m := g0\<lparr>g_nodes :=
              [(0, [(2, 1), (3, 11 / 10), (4, 2)]),
               (1, [(4, 2)]),
               (2, [(0, 1), (3, 1 / 10), (4, 1)]),
               (3, [(0, 11 / 10), (2, 1 / 10), (4, 9 / 10)]),
               (4, [(0, 2), (1, 2), (2, 1), (3, 9 / 10)])]\<rparr>,
          vertexLUT_m := [(0, pt (- 2) 0), (1, pt 2 0), (2, pt (- 1) 0),
                          (3, pt (- (9 / 10)) 0), (4, pt 0 0)],
          nextVertexId_m := 5\<rparr>,
      cspace m_free)"
  unfolding run_near_def gm0_new
  apply (simp add: eval ind_near_def)
  apply (subst sampleLoop.simps)
  apply (simp add: eval ind_near_def)
  apply (subst sampleLoop.simps)
  apply (simp add: eval ind_near_def)
  apply (subst sampleLoop.simps)
  apply (simp add: eval ind_near_def)
  done

lemma run_direct_eq:
  "run_direct =
     ([pt (- 1) 0, pt 1 0],
      gm0\<lparr>graph_m := g0\<lparr>g_nodes := [(0, [(1, 2)]), (1, [(0, 2)])]\<rparr>,
          vertexLUT_m := [(0, pt (- 1) 0), (1, pt 1 0)],
          nextVertexId_m := 2\<rparr>,
      cspace m_free)"
  unfolding run_direct_def gm0_new
  by (simp add: eval ind_mid_def)

lemma run_again_eq:
  "run_again = ([pt (- 1) 0, pt 1 0], fst (snd run_direct), cspace m_goal)"
  unfolding run_again_def run_direct_eq
  by (simp add: eval ind_mid_def)

lemma run_swapped_eq:
  "run_swapped = ([pt 1 0, pt (- 1) 0], fst (snd run_direct), cspace m_goal)"
  unfolding run_swapped_def run_direct_eq
  by (simp add: eval ind_swap_def)

lemma run_wall_eq:
  "run_wall =
     ([pt (- 1) 1, pt (- 1) 0, pt 1 0],
      gm0\<lparr>graph_m := g0\<lparr>g_nodes := [(0, [(1, 2), (2, 1)]), (1, [(0, 2)]), (2, [(0, 1)])]\<rparr>,
          vertexLUT_m := [(0, pt (- 1) 0), (1, pt 1 0), (2, pt (- 1) 1)],
          nextVertexId_m := 3\<rparr>,
      cspace m_wall)"
  unfolding run_wall_def run_direct_eq
  by (simp add: eval ind_mid_def)

text \<open>
  Claim C1 (the code departs from it). The first call adds \<open>(-1, 0)\<close> and \<open>(1, 0)\<close> as
  vertices 0 and 1, joins them and returns the path between them. The request is then
  repeated on a map in which the cell of the goal is occupied. Both ordinates are
  vertices, so the guarded block is skipped: the accessibility of the goal is not looked
  at, \<open>findOrAdd\<close> is not called, and the query runs on whatever the unset locals hold.
  With 0 and 1 in them the call returns the old path although the goal is not free; with
  1 and 0 it returns the path from the goal to the start.
\<close>

theorem build_skips_setup_when_both_exist:
  "fst run_direct = [pt (- 1) 0, pt 1 0]
   \<and> existsAsVertex (fst (snd run_direct)) (pt (- 1) 0)
   \<and> existsAsVertex (fst (snd run_direct)) (pt 1 0)
   \<and> snd (snd run_again) = expandConfigSpace spec_env lm0 m_goal (1 / 5)
   \<and> \<not> isAccessible spec_env lm0 (snd (snd run_again))
          (convertToPoint spec_env lm0 (pt 0 0) (pt 1 0))
   \<and> fst run_again = [pt (- 1) 0, pt 1 0]
   \<and> fst run_swapped = [pt 1 0, pt (- 1) 0]"
  by (simp add: run_again_eq run_swapped_eq run_direct_eq existsAsVertex_def env_sel pix geo_goal)

text \<open>
  Claim C3 (the code departs from it). On the free raster the sampling loop accepts the
  sample \<open>(-0.9, 0)\<close> as vertex 3 although vertex 2, itself a sample, lies 0.1 away from
  it: the loop tests a sample for accessibility and for being an ordinate of the table,
  and for nothing else. A dispersion test at any radius above 0.1, here 0.2, would have
  refused it.
\<close>

theorem sampling_accepts_close_samples:
  "vertexLUT_m (fst (snd run_near)) =
     [(0, pt (- 2) 0), (1, pt 2 0), (2, pt (- 1) 0), (3, pt (- (9 / 10)) 0), (4, pt 0 0)]
   \<and> distance (pt (- 1) 0) (pt (- (9 / 10)) 0) = 1 / 10
   \<and> violatingSpace [(0, pt (- 2) 0), (1, pt 2 0), (2, pt (- 1) 0)] (pt (- (9 / 10)) 0) (1 / 5)"
  by (simp add: run_near_eq violatingSpace_def distance_row)

text \<open>
  Claim C2 fails as stated. On the free raster \<open>build\<close> finds the vertex path 0, 2, 1 and
  returns its translation, three ordinates on one line, whereas \<open>optimise_path\<close> would
  shorten them to the two ends, which see each other. And after the cell of the origin
  has become occupied, \<open>build\<close> returns a path whose last two ordinates, joined by an edge
  of the earlier call, are not in line of sight in the current C-space.
\<close>

theorem build_returns_unoptimised_path:
  "shortestPath spec_env (graph_m (fst (snd run_mid))) 0 1 = [0, 2, 1]
   \<and> fst run_mid = [pt (- 2) 0, pt 0 0, pt 2 0]
   \<and> optimise_path (lineOfSight spec_env (fst (snd run_mid)) (snd (snd run_mid))) (fst run_mid)
       = Some [pt (- 2) 0, pt 2 0]
   \<and> fst run_wall = [pt (- 1) 1, pt (- 1) 0, pt 1 0]
   \<and> \<not> lineOfSight spec_env (fst (snd run_wall)) (snd (snd run_wall)) (pt (- 1) 0) (pt 1 0)"
  by (simp add: run_mid_eq run_wall_eq lineOfSight_def env_sel graph_eval pix los_free geo_wall)

theorem build_path_is_translation_witness:
  "lut_wf gm0
   \<and> \<not> (existsAsVertex gm0 (pt (- 2) 0) \<and> existsAsVertex gm0 (pt 2 0))
   \<and> build spec_env gm0 m_free (pt (- 2) 0) (pt 2 0) ind_mid = run_mid
   \<and> fst run_mid \<noteq> []
   \<and> map (map_of (vertexLUT_m (fst (snd run_mid)))) [0, 2, 1] = map Some (fst run_mid)
   \<and> length (fst run_mid) = 3
   \<and> hd (fst run_mid) = pt (- 2) 0
   \<and> last (fst run_mid) = pt 2 0"
proof -
  have wf: "lut_wf gm0"
    by (simp add: lut_wf_def lut_sorted_def)
  have fresh: "\<not> (existsAsVertex gm0 (pt (- 2) 0) \<and> existsAsVertex gm0 (pt 2 0))"
    by (simp add: existsAsVertex_def)
  have run: "build spec_env gm0 m_free (pt (- 2) 0) (pt 2 0) ind_mid = run_mid"
    by (simp add: run_mid_def gm0_new)
  have ne: "fst run_mid \<noteq> []"
    by (simp add: run_mid_eq)
  have run': "build spec_env gm0 m_free (pt (- 2) 0) (pt 2 0) ind_mid
                = (fst run_mid, fst (snd run_mid), snd (snd run_mid))"
    by (simp add: run)
  have vs: "fst (findOrAdd spec_env gm0 (pt (- 2) 0)) = 0"
    and vg: "fst (findOrAdd spec_env (snd (findOrAdd spec_env gm0 (pt (- 2) 0))) (pt 2 0)) = 1"
    by (simp_all add: findOrAdd_def existsAsVertex_def nextVertexId_def lookup_def Let_def)
  have sp: "shortestPath spec_env (graph_m (fst (snd run_mid))) 0 (Suc 0) = [0, 2, 1]"
    by (simp add: run_mid_eq env_sel graph_eval)
  from build_path_is_translation [OF wf fresh run' ne]
  have t: "map (map_of (vertexLUT_m (fst (snd run_mid)))) [0, 2, 1] = map Some (fst run_mid)
           \<and> length (fst run_mid) = 3
           \<and> hd (fst run_mid) = pt (- 2) 0
           \<and> last (fst run_mid) = pt 2 0"
    by (simp add: Let_def vs vg sp run_mid_eq)
  show ?thesis
    using wf fresh run ne t by blast
qed

subsection \<open>The sampling loop at its bound\<close>

lemma none_blocked: "\<not> isAccessible spec_env lm0 (cspace m_none) p"
  by (simp add: env_sel LocalMap_isAccessible_def LocalMap_expandConfigSpace_def m_none_def)

theorem sampleLoop_within_MaxSamples_witness:
  "sampleLoop spec_env (cspace m_none) 0 1 ind_mid gm0 0 = ([], gm0, 1000)
   \<and> unat (snd (snd (sampleLoop spec_env (cspace m_none) 0 1 ind_mid gm0 0))) = 1000
   \<and> fst (sampleLoop spec_env (cspace m_none) 0 1 ind_mid gm0 0) = []"
proof -
  have e: "sampleLoop spec_env (cspace m_none) 0 1 ind_mid gm0 0 = ([], gm0, 1000)"
    by (rule sampleLoop_exhausts) (simp_all add: none_blocked)
  from sampleLoop_within_MaxSamples [of spec_env "cspace m_none" 0 1 ind_mid gm0]
  show ?thesis using e by simp
qed

subsection \<open>Sequences of findOrAdd\<close>

lemma seq_eq:
  "findOrAdd_seq spec_env (GlobalMap_new spec_env 6 (1 / 2) (1 / 5)) [pt 1 1, pt 2 2, pt 1 1]
     = ([(0, True), (1, True), (0, False)],
        gm0\<lparr>graph_m := g0\<lparr>g_nodes := [(0, []), (1, [])]\<rparr>,
            vertexLUT_m := [(0, pt 1 1), (1, pt 2 2)],
            nextVertexId_m := 2\<rparr>)"
  unfolding gm0_new by (simp add: eval)

theorem findOrAdd_sequence_witness:
  "findOrAdd_seq spec_env (GlobalMap_new spec_env 6 (1 / 2) (1 / 5)) [pt 1 1, pt 2 2, pt 1 1]
     = ([(0, True), (1, True), (0, False)],
        gm0\<lparr>graph_m := g0\<lparr>g_nodes := [(0, []), (1, [])]\<rparr>,
            vertexLUT_m := [(0, pt 1 1), (1, pt 2 2)],
            nextVertexId_m := 2\<rparr>)
   \<and> distinct [pt 1 1, pt 2 2]
   \<and> sorted_wrt (<) [0 :: nat, 1]
   \<and> map (map_of [(0 :: nat, pt 1 1), (1, pt 2 2)]) [0, 1, 0] = map Some [pt 1 1, pt 2 2, pt 1 1]
   \<and> fst (findOrAdd spec_env
             (gm0\<lparr>graph_m := g0\<lparr>g_nodes := [(0, []), (1, [])]\<rparr>,
                  vertexLUT_m := [(0, pt 1 1), (1, pt 2 2)],
                  nextVertexId_m := 2\<rparr>) (pt 2 2)) = 1
   \<and> fst (findOrAdd spec_env
             (gm0\<lparr>graph_m := g0\<lparr>g_nodes := [(0, []), (1, [])]\<rparr>,
                  vertexLUT_m := [(0, pt 1 1), (1, pt 2 2)],
                  nextVertexId_m := 2\<rparr>) (pt 3 3)) = 2"
proof -
  note t = findOrAdd_sequence [OF seq_eq]
  from t have a: "distinct [pt 1 1, pt 2 2]" by simp
  from t have b: "sorted_wrt (<) [0 :: nat, 1]" by simp
  from t have c: "map (map_of [(0 :: nat, pt 1 1), (1, pt 2 2)]) [0, 1, 0]
                    = map Some [pt 1 1, pt 2 2, pt 1 1]"
    by simp
  show ?thesis
    using seq_eq a b c
    by (simp add: findOrAdd_def existsAsVertex_def nextVertexId_def lookup_def Let_def)
qed

subsection \<open>Passes of the planner loop\<close>

lemma cycle_free_build:
  "cycleBuild spec_env (\<lambda>n. ind_mid) (sim0 m_free) =
     ([pt 0 0, pt 1 0],
      gm0\<lparr>graph_m := g0\<lparr>g_nodes := [(0, [(1, 1)]), (1, [(0, 1)])]\<rparr>,
          vertexLUT_m := [(0, pt 0 0), (1, pt 1 0)],
          nextVertexId_m := 2\<rparr>,
      cspace m_free, 1)"
  apply (simp add: cycleBuild_def cycle_eval)
  apply (simp add: eval ind_mid_def)
  apply (simp add: retryLoop.simps)
  done

lemma cycle_free_output:
  "cycleOutput spec_env (\<lambda>n. ind_mid) (sim0 m_free) =
     [Overlay \<lparr>img_base = m_free, img_prm = [((6, 6), (8, 6))], img_path = [(6, 6), (8, 6)]\<rparr>,
      PoseArray [\<lparr>pos_x = 0, pos_y = 0, pos_z = 7, orientation = (0, 0, 0, 0)\<rparr>,
                 \<lparr>pos_x = 1, pos_y = 0, pos_z = 7, orientation = (0, 0, 0, 0)\<rparr>]]"
  apply (simp add: cycleOutput_def cycle_eval)
  apply (simp add: eval ind_mid_def)
  apply (simp add: retryLoop.simps)
  apply (simp add: cycle_eval eval)
  done

lemma cycle_goal_build:
  "cycleBuild spec_env (\<lambda>n. ind_mid) (sim0 m_goal) =
     ([], gm0, cspace (cspace (cspace m_goal)), 3)"
  apply (simp add: cycleBuild_def cycle_eval)
  apply (simp add: eval ind_mid_def)
  apply (subst retryLoop.simps)
  apply (simp add: eval ind_mid_def)
  apply (subst retryLoop.simps)
  apply (simp add: eval ind_mid_def)
  done

lemma cycle_maps:
  "cycleMap (sim0 m) = m"
  "cyclePose (sim0 m) = pose0"
  by (simp_all add: cycleMap_def cyclePose_def consumeWorld_def sim0_def)

theorem buildWithRetries_at_most_three_witness:
  "cycleBuild spec_env (\<lambda>n. ind_mid) (sim0 m_goal) = ([], gm0, cspace (cspace (cspace m_goal)), 3)
   \<and> buildWithRetries spec_env (\<lambda>n. ind_mid) gm0 m_goal (pt 0 0) (pt 1 0)
       = ([], gm0, cspace (cspace (cspace m_goal)), 3)
   \<and> fst (build spec_env gm0 m_goal (pt 0 0) (pt 1 0) ind_mid) = []
   \<and> fst (build spec_env gm0 (cspace m_goal) (pt 0 0) (pt 1 0) ind_mid) = []
   \<and> fst (build spec_env gm0 (cspace (cspace m_goal)) (pt 0 0) (pt 1 0) ind_mid) = []
   \<and> list_all isOverlay (cycleOutput spec_env (\<lambda>n. ind_mid) (sim0 m_goal))"
proof -
  have b: "build spec_env gm0 m_goal (pt 0 0) (pt 1 0) ind_mid = ([], gm0, cspace m_goal)"
    "build spec_env gm0 (cspace m_goal) (pt 0 0) (pt 1 0) ind_mid
       = ([], gm0, cspace (cspace m_goal))"
    "build spec_env gm0 (cspace (cspace m_goal)) (pt 0 0) (pt 1 0) ind_mid
       = ([], gm0, cspace (cspace (cspace m_goal)))"
    by (simp_all add: eval)
  note t = buildWithRetries_at_most_three
             [of spec_env "\<lambda>n. ind_mid" gm0 m_goal "pt 0 0" "pt 1 0" "sim0 m_goal"]
  from t have r: "buildWithRetries spec_env (\<lambda>n. ind_mid) gm0 m_goal (pt 0 0) (pt 1 0)
                    = ([], gm0, cspace (cspace (cspace m_goal)), 3)"
    by (simp add: b)
  from t have o: "list_all isOverlay (cycleOutput spec_env (\<lambda>n. ind_mid) (sim0 m_goal))"
    by (simp add: cycle_goal_build)
  show ?thesis
    using r o by (simp add: cycle_goal_build b)
qed

text \<open>
  Claim C6 fails as stated. A pass that takes an empty raster from the buffer resets the
  reference and goes back to waiting: it publishes no overlay.
\<close>

theorem prmCycle_empty_map_publishes_nothing:
  "mat_empty (cycleMap (sim0 m_none))
   \<and> cycleOutput spec_env (\<lambda>n. ind_mid) (sim0 m_none) = []
   \<and> length (filter isOverlay (cycleOutput spec_env (\<lambda>n. ind_mid) (sim0 m_none))) = 0"
proof -
  have e: "mat_empty (cycleMap (sim0 m_none))"
    by (simp add: cycle_maps empties)
  have o: "cycleOutput spec_env (\<lambda>n. ind_mid) (sim0 m_none) = []"
    by (simp add: cycleOutput_def cycle_eval)
  show ?thesis
    using e o by simp
qed

theorem prmCycle_overlay_and_waypoints_witness:
  "\<not> mat_empty (cycleMap (sim0 m_free))
   \<and> cycleOutput spec_env (\<lambda>n. ind_mid) (sim0 m_free) =
       [Overlay \<lparr>img_base = m_free, img_prm = [((6, 6), (8, 6))], img_path = [(6, 6), (8, 6)]\<rparr>,
        PoseArray [\<lparr>pos_x = 0, pos_y = 0, pos_z = 7, orientation = (0, 0, 0, 0)\<rparr>,
                   \<lparr>pos_x = 1, pos_y = 0, pos_z = 7, orientation = (0, 0, 0, 0)\<rparr>]]
   \<and> length (filter isOverlay (cycleOutput spec_env (\<lambda>n. ind_mid) (sim0 m_free))) = 1
   \<and> length (filter (\<lambda>msg. \<not> isOverlay msg) (cycleOutput spec_env (\<lambda>n. ind_mid) (sim0 m_free))) = 1"
proof -
  note t = prmCycle_overlay_and_waypoints [of spec_env "\<lambda>n. ind_mid" "sim0 m_free"]
  have e: "\<not> mat_empty (cycleMap (sim0 m_free))"
    by (simp add: cycle_maps empties)
  from t e have n: "length (filter isOverlay (cycleOutput spec_env (\<lambda>n. ind_mid) (sim0 m_free))) = 1"
    "length (filter (\<lambda>msg. \<not> isOverlay msg) (cycleOutput spec_env (\<lambda>n. ind_mid) (sim0 m_free))) = 1"
    by (simp_all add: cycle_free_build)
  show ?thesis
    using e n cycle_free_output by simp
qed

theorem waypoints_follow_path_witness:
  "PoseArray [\<lparr>pos_x = 0, pos_y = 0, pos_z = 7, orientation = (0, 0, 0, 0)\<rparr>,
              \<lparr>pos_x = 1, pos_y = 0, pos_z = 7, orientation = (0, 0, 0, 0)\<rparr>]
     \<in> set (cycleOutput spec_env (\<lambda>n. ind_mid) (sim0 m_free))
   \<and> fst (cycleBuild spec_env (\<lambda>n. ind_mid) (sim0 m_free)) = [pt 0 0, pt 1 0]
   \<and> [\<lparr>pos_x = 0, pos_y = 0, pos_z = 7, orientation = (0, 0, 0, 0)\<rparr>,
       \<lparr>pos_x = 1, pos_y = 0, pos_z = 7, orientation = (0, 0, 0, 0)\<rparr>]
      = map (\<lambda>w. \<lparr>pos_x = ord_x w, pos_y = ord_y w, pos_z = pos_z (cyclePose (sim0 m_free)),
                    orientation = (0, 0, 0, 0)\<rparr>)
          (fst (cycleBuild spec_env (\<lambda>n. ind_mid) (sim0 m_free)))
   \<and> pos_z (cyclePose (sim0 m_free)) = 7
   \<and> cyclePose (sim0 m_free) = hd (poseDeq (sim0 m_free))"
proof -
  have mem: "PoseArray [\<lparr>pos_x = 0, pos_y = 0, pos_z = 7, orientation = (0, 0, 0, 0)\<rparr>,
                        \<lparr>pos_x = 1, pos_y = 0, pos_z = 7, orientation = (0, 0, 0, 0)\<rparr>]
               \<in> set (cycleOutput spec_env (\<lambda>n. ind_mid) (sim0 m_free))"
    by (simp add: cycle_free_output)
  note t = waypoints_follow_path [OF mem]
  have d: "poseDeq (sim0 m_free) \<noteq> []" by (simp add: sim0_def)
  have z: "pos_z (cyclePose (sim0 m_free)) = 7" by (simp add: cycle_maps pose0_def)
  show ?thesis
    using mem t d z by (simp add: cycle_free_build)
qed


end
